theory Spec2Isabelle
  imports Main "HOL-Library.Sublist"
begin

section \<open>The error algebra of package adt\<close>

text \<open>
  The first file is the error encoding of the evaluator (package \<^verbatim>\<open>adt\<close>): the type
  \<^verbatim>\<open>ErrorCode\<close>, the struct \<^verbatim>\<open>Bottom\<close>, and the functions \<^verbatim>\<open>IsIncomplete\<close>,
  \<^verbatim>\<open>isIncomplete\<close>, \<^verbatim>\<open>AddChildError\<close> and \<^verbatim>\<open>CombineErrors\<close>.

  Go's \<^verbatim>\<open>type ErrorCode int\<close> is an integer with six named constants (an \<^verbatim>\<open>iota\<close>
  block); the code compares codes with \<^verbatim>\<open>>\<close> and \<^verbatim>\<open>>=\<close>, so the model keeps the integers.
\<close>

type_synonym ErrorCode = int

definition EvalError :: ErrorCode where "EvalError = 0"
definition UserError :: ErrorCode where "UserError = 1"
definition NotExistError :: ErrorCode where "NotExistError = 2"
definition StructuralCycleError :: ErrorCode where "StructuralCycleError = 3"
definition IncompleteError :: ErrorCode where "IncompleteError = 4"
definition CycleError :: ErrorCode where "CycleError = 5"

lemmas ErrorCode_defs =
  EvalError_def UserError_def NotExistError_def StructuralCycleError_def
  IncompleteError_def CycleError_def

text \<open>
  A \<^verbatim>\<open>*Bottom\<close> is a pointer: \<^verbatim>\<open>AddChildError\<close> writes through it, and \<^verbatim>\<open>CombineErrors\<close>
  hands its arguments back by identity. Bottoms therefore live in a heap, a list of cells
  addressed by position; \<^verbatim>\<open>&Bottom{...}\<close> appends a cell and a nil pointer is \<open>None\<close>.

  \<^verbatim>\<open>ast.Node\<close> is a reference to a syntax node (\<open>None\<close> is nil). The interface
  \<^verbatim>\<open>Value\<close> is modelled by what the type assertion \<^verbatim>\<open>x.(*Bottom)\<close> can tell apart: the nil
  interface, an interface holding a \<^verbatim>\<open>*Bottom\<close> (which may be a nil pointer), and a
  value of any other dynamic type. \<^verbatim>\<open>errors.Error\<close> belongs to package
  \<^verbatim>\<open>cue/errors\<close>, outside the two files; it is the type parameter \<open>'e\<close>, and
  \<^verbatim>\<open>errors.Append\<close> is a function parameter of the definitions that call it.
\<close>

type_synonym ptr = nat
type_synonym Node = "nat option"

datatype Value = NilValue | BottomPtr "ptr option" | OtherValue nat

record 'e Bottom =
  Src :: Node
  Err :: 'e
  Code :: ErrorCode
  HasRecursive :: bool
  ChildError :: bool
  BValue :: Value

type_synonym 'e heap = "'e Bottom list"

definition alloc :: "'e heap \<Rightarrow> 'e Bottom \<Rightarrow> ptr \<times> 'e heap" where
  "alloc h b = (length h, h @ [b])"

text \<open>
  Modelled from the spec: the struct \<^verbatim>\<open>Vertex\<close> is declared outside the two files. The
  spec gives it "a current Value (possibly a Bottom) and a separately tracked aggregate of
  all child Bottoms seen so far (ChildErrors)"; these are the two fields
  \<^verbatim>\<open>AddChildError\<close> and \<^verbatim>\<open>isIncomplete\<close> read and write. The field \<^verbatim>\<open>Value\<close> of
  \<^verbatim>\<open>Bottom\<close> is named \<open>BValue\<close> above to keep the two apart.
\<close>

record Vertex =
  Value :: Value
  ChildErrors :: "ptr option"

datatype panic = NilDereference | AlreadyDefined | Unimplemented | TypeAssertion | SliceBounds
  | UnknownLabel

text \<open>The type assertion \<^verbatim>\<open>a, _ := x.(*Bottom)\<close>: nil unless \<open>x\<close> holds a \<^verbatim>\<open>*Bottom\<close>.\<close>

definition asBottom :: "Value \<Rightarrow> ptr option" where
  "asBottom x = (case x of BottomPtr p \<Rightarrow> p | _ \<Rightarrow> None)"

definition IsIncomplete :: "'e heap \<Rightarrow> ptr option \<Rightarrow> bool" where
  "IsIncomplete h b =
     (case b of
        None \<Rightarrow> False
      | Some p \<Rightarrow> Code (h ! p) = IncompleteError \<or> Code (h ! p) = CycleError)"

definition isIncomplete :: "'e heap \<Rightarrow> Vertex option \<Rightarrow> bool" where
  "isIncomplete h v =
     (case v of
        None \<Rightarrow> True
      | Some vx \<Rightarrow>
          (case Value vx of
             BottomPtr b \<Rightarrow> IsIncomplete h b
           | _ \<Rightarrow> False))"

definition mergeBottoms :: "('e \<Rightarrow> 'e \<Rightarrow> 'e) \<Rightarrow> Node \<Rightarrow> ptr \<Rightarrow> ptr \<Rightarrow> 'e heap \<Rightarrow> ptr option \<times> 'e heap" where
  "mergeBottoms Append src a b h =
     (let (p, h') = alloc h
            \<lparr>Src = src, Err = Append (Err (h ! a)) (Err (h ! b)), Code = Code (h ! a),
             HasRecursive = False, ChildError = False, BValue = NilValue\<rparr>
      in (Some p, h'))"

definition CombineErrors ::
  "('e \<Rightarrow> 'e \<Rightarrow> 'e) \<Rightarrow> Node \<Rightarrow> Value \<Rightarrow> Value \<Rightarrow> 'e heap \<Rightarrow> ptr option \<times> 'e heap" where
  "CombineErrors Append src x y h =
     (case (asBottom x, asBottom y) of
        (Some a, Some b) \<Rightarrow>
          if Code (h ! a) \<noteq> Code (h ! b) then
            (let (a', b') = (if Code (h ! a) > Code (h ! b) then (b, a) else (a, b))
             in if Code (h ! b') \<ge> IncompleteError then (Some a', h)
                else mergeBottoms Append src a' b' h)
          else mergeBottoms Append src a b h
      | (Some a, None) \<Rightarrow> (Some a, h)
      | (None, Some b) \<Rightarrow> (Some b, h)
      | (None, None) \<Rightarrow> (None, h))"

definition AddChildError ::
  "('e \<Rightarrow> 'e \<Rightarrow> 'e) \<Rightarrow> Vertex \<Rightarrow> ptr option \<Rightarrow> 'e heap \<Rightarrow> panic + (Vertex \<times> 'e heap)" where
  "AddChildError Append v recursive h =
     (let (ce, h1) = CombineErrors Append None (BottomPtr (ChildErrors v)) (BottomPtr recursive) h;
          v1 = v\<lparr>ChildErrors := ce\<rparr>
      in if IsIncomplete h1 recursive then Inr (v1, h1)
         else
           (case recursive of
              None \<Rightarrow> Inl NilDereference
            | Some r \<Rightarrow>
                (case asBottom (Value v1) of
                   None \<Rightarrow>
                     (let (p, h2) = alloc h1
                            \<lparr>Src = None, Err = Err (h1 ! r), Code = Code (h1 ! r),
                             HasRecursive = True, ChildError = True, BValue = Value v1\<rparr>
                      in Inr (v1\<lparr>Value := BottomPtr (Some p)\<rparr>, h2))
                 | Some e \<Rightarrow>
                     (let h2 = h1[e := (h1 ! e)\<lparr>HasRecursive := True\<rparr>];
                          h3 = (if Code (h2 ! e) > Code (h2 ! r)
                                then h2[e := (h2 ! e)\<lparr>Code := Code (h2 ! r)\<rparr>] else h2)
                      in Inr (v1\<lparr>Value := BottomPtr (Some e)\<rparr>, h3)))))"

text \<open>
  A heap for the concrete instances below: cell 0 is a structural cycle, cell 1 a user
  error, cell 2 a reference cycle, cell 3 a second user error. Diagnostics are lists of
  messages there and \<^verbatim>\<open>errors.Append\<close> is instantiated with list append.
\<close>

definition bottomCell :: "ErrorCode \<Rightarrow> string \<Rightarrow> string list Bottom" where
  "bottomCell c msg =
     \<lparr>Src = None, Err = [msg], Code = c, HasRecursive = False, ChildError = False,
      BValue = NilValue\<rparr>"

definition demoHeap :: "string list heap" where
  "demoHeap =
     [bottomCell StructuralCycleError ''structural cycle'',
      bottomCell UserError ''explicit error'',
      bottomCell CycleError ''cycle'',
      bottomCell UserError ''second error'']"

section \<open>The syntax-tree builder of package cue\<close>

text \<open>
  The second file lowers a syntax tree into the value graph of package \<^verbatim>\<open>cue\<close>:
  \<^verbatim>\<open>insertFile\<close>, the visitor with \<^verbatim>\<open>errf\<close>, \<^verbatim>\<open>mapScope\<close>, \<^verbatim>\<open>setScope\<close>,
  \<^verbatim>\<open>resolve\<close>, the recursive \<^verbatim>\<open>walk\<close>, \<^verbatim>\<open>addDisjunctionElem\<close> and \<^verbatim>\<open>wrapClauses\<close>.
\<close>

subsection \<open>Syntax nodes\<close>

text \<open>
  Modelled from the spec: package \<^verbatim>\<open>ast\<close> and package \<^verbatim>\<open>token\<close> are outside the two
  files. The parser hands over "a syntax tree whose nodes expose, at minimum, declaration
  lists, field labels, operator tokens, literal text"; the node type below has one
  constructor per node type that the type switches of \<^verbatim>\<open>walk\<close>,
  \<^verbatim>\<open>addDisjunctionElem\<close> and \<^verbatim>\<open>wrapClauses\<close> name, with the fields that code reads. The builder keys its scope map by node identity, so every
  node carries its identity \<open>nid\<close> first. A position field that is only compared with
  \<^verbatim>\<open>token.NoPos\<close> is a boolean (\<^verbatim>\<open>ListLit.Ellipsis\<close>), a nil-able field an option.

  An identifier's \<^verbatim>\<open>Node\<close> field is nil (\<open>Unresolved\<close>), an \<^verbatim>\<open>*ast.Alias\<close>, of which
  \<^verbatim>\<open>walk\<close> lowers the expression (\<open>ToAlias\<close> carries it), or some other node, of
  which only the identity is used (\<open>ToNode\<close>). Its \<^verbatim>\<open>Scope\<close> field is the last argument of
  \<open>Ident\<close>.

  An import spec carries the text of its path literal (\<^verbatim>\<open>imp.Path.Value\<close>). A struct
  literal carries its elements and whether its left brace is present
  (\<^verbatim>\<open>n.Lbrace.IsValid()\<close>). A field carries its label, its value, whether it is optional
  (\<^verbatim>\<open>n.Optional != token.NoPos\<close>), the texts of its attributes and the positions of its
  comment groups (\<^verbatim>\<open>c.Position\<close> for every \<^verbatim>\<open>c\<close> of \<^verbatim>\<open>n.Comments()\<close>). The field of
  a comprehension declaration is a \<^verbatim>\<open>*ast.Field\<close> of which \<^verbatim>\<open>walk\<close> reads the identity,
  the label and the value: \<open>ComprehensionDecl\<close> carries these three and the clauses. A
  template label carries the name of its identifier.
\<close>

type_synonym nid = nat

datatype token = ADD | SUB | MUL | NOT | GEQ | GTR | LSS | LEQ | NEQ | MAT | NMAT | OR
  | OtherToken string

datatype node =
    File nid "node list"
  | ImportDecl nid "node list"
  | ImportSpec nid string
  | StructLit nid "node list" bool
  | Field nid node node bool "string list" "int list"
  | ComprehensionDecl nid nid node node "node list"
  | TemplateLabel nid string
  | EmitDecl nid node
  | Alias nid node
  | BadDecl nid
  | CommentGroup nid
  | ListLit nid "node list" bool "node option"
  | ListComprehension nid node "node list"
  | ForClause nid "(nid \<times> string) option" "nid \<times> string" node
  | IfClause nid node
  | Ident nid string binding "nid option"
  | BottomLit nid
  | BadExpr nid
  | BasicLit nid string
  | Interpolation nid "node list"
  | ParenExpr nid node
  | SelectorExpr nid node string
  | IndexExpr nid node node
  | SliceExpr nid node "node option" "node option"
  | CallExpr nid node "node list"
  | UnaryExpr nid token node
  | BinaryExpr nid token node node
and binding = Unresolved | ToAlias node | ToNode nid

primrec nodeId :: "node \<Rightarrow> nid" where
  "nodeId (File i ds) = i"
| "nodeId (ImportDecl i specs) = i"
| "nodeId (ImportSpec i path) = i"
| "nodeId (StructLit i es lb) = i"
| "nodeId (Field i l x opt as cs) = i"
| "nodeId (ComprehensionDecl i fi l x cs) = i"
| "nodeId (TemplateLabel i name) = i"
| "nodeId (EmitDecl i x) = i"
| "nodeId (Alias i x) = i"
| "nodeId (BadDecl i) = i"
| "nodeId (CommentGroup i) = i"
| "nodeId (ListLit i es ell t) = i"
| "nodeId (ListComprehension i x cs) = i"
| "nodeId (ForClause i k val src) = i"
| "nodeId (IfClause i c) = i"
| "nodeId (Ident i name b sc) = i"
| "nodeId (BottomLit i) = i"
| "nodeId (BadExpr i) = i"
| "nodeId (BasicLit i s) = i"
| "nodeId (Interpolation i es) = i"
| "nodeId (ParenExpr i x) = i"
| "nodeId (SelectorExpr i x s) = i"
| "nodeId (IndexExpr i x y) = i"
| "nodeId (SliceExpr i x lo hi) = i"
| "nodeId (CallExpr i f xs) = i"
| "nodeId (UnaryExpr i tk x) = i"
| "nodeId (BinaryExpr i tk x y) = i"

text \<open>
  Go's type assertions and type switches on a node, as partial projections: \<open>None\<close> when
  the node has another dynamic type.
\<close>

fun asEmitDecl :: "node \<Rightarrow> node option" where
  "asEmitDecl (EmitDecl i x) = Some x"
| "asEmitDecl x = None"

fun asBasicLit :: "node \<Rightarrow> (nid \<times> string) option" where
  "asBasicLit (BasicLit i s) = Some (i, s)"
| "asBasicLit x = None"

fun asBinaryExpr :: "node \<Rightarrow> (token \<times> node \<times> node) option" where
  "asBinaryExpr (BinaryExpr i tk x y) = Some (tk, x, y)"
| "asBinaryExpr x = None"

fun asUnaryExpr :: "node \<Rightarrow> (token \<times> node) option" where
  "asUnaryExpr (UnaryExpr i tk x) = Some (tk, x)"
| "asUnaryExpr x = None"

fun asForClause ::
  "node \<Rightarrow> (nid \<times> (nid \<times> string) option \<times> (nid \<times> string) \<times> node) option" where
  "asForClause (ForClause i k val src) = Some (i, k, val, src)"
| "asForClause x = None"

fun asIfClause :: "node \<Rightarrow> node option" where
  "asIfClause (IfClause i c) = Some c"
| "asIfClause x = None"

fun asTemplateLabel :: "node \<Rightarrow> string option" where
  "asTemplateLabel (TemplateLabel i name) = Some name"
| "asTemplateLabel x = None"

fun isInterpolation :: "node \<Rightarrow> bool" where
  "isInterpolation (Interpolation i es) = True"
| "isInterpolation x = False"

text \<open>The case \<^verbatim>\<open>*ast.BasicLit, *ast.Ident\<close> of the type switches on a label.\<close>

fun isNameLabel :: "node \<Rightarrow> bool" where
  "isNameLabel (BasicLit i s) = True"
| "isNameLabel (Ident i name b sc) = True"
| "isNameLabel x = False"

text \<open>
  The elements of a struct literal that its loop lowers: \<^verbatim>\<open>*ast.Field\<close>,
  \<^verbatim>\<open>*ast.Alias\<close> and \<^verbatim>\<open>*ast.ComprehensionDecl\<close>.
\<close>

fun isStructElt :: "node \<Rightarrow> bool" where
  "isStructElt (Field i l x opt as cs) = True"
| "isStructElt (Alias i x) = True"
| "isStructElt (ComprehensionDecl i fi l x cs) = True"
| "isStructElt x = False"

subsection \<open>Values, heap objects and the visitor\<close>

text \<open>
  Modelled from the spec: the value types of package \<^verbatim>\<open>cue\<close> are declared outside the
  two files. The spec lists them ("top, bottom, basic-type markers, bound, record, list,
  disjunction, lambda, selector, index, slice, call, unary/binary operator node,
  interpolation, node-reference, comprehension-yield/guard/feed nodes"), names the fields
  of a record ("arcs", "a list of pending field comprehensions, at most one template", "an
  optional emit value") and says that
  "every variant carries a source-position reference"; the constructors below carry the
  fields that the composite literals in \<^verbatim>\<open>walk\<close> set, the source reference first
  (\<open>None\<close> for a nil node). The names \<^verbatim>\<open>value\<close>, \<^verbatim>\<open>top\<close> and \<^verbatim>\<open>list\<close> are taken in
  Isabelle, hence \<open>cvalue\<close>, \<open>topValue\<close> and \<open>listValue\<close>; \<open>nil\<close> is the nil interface.

  \<^verbatim>\<open>*structLit\<close>, \<^verbatim>\<open>*lambdaExpr\<close> and \<^verbatim>\<open>*yield\<close> are pointers to objects that the
  builder updates after it has handed the pointer out (\<^verbatim>\<open>fn.value = y\<close>,
  \<^verbatim>\<open>yielder.value = ...\<close>, \<^verbatim>\<open>object.emit = ...\<close>); a value refers to them by address, and
  the state keeps one list of objects per type. A \<^verbatim>\<open>scope\<close> is a pointer to a struct or to
  a lambda. The struct that a list literal wraps its elements in is not shared, and its
  arcs are kept in the list value itself. \<open>lambdaRef\<close> is a \<^verbatim>\<open>*lambdaExpr\<close> used as a
  value (a template). A \<^verbatim>\<open>*fieldComprehension\<close> is entered in its record when the builder
  has finished it and is kept there as a value. \<open>external\<close> stands for a value made by
  code outside the two files (a parsed literal, a builtin). The attributes of a field are
  made and consumed outside the two files. The record of a builtin package or of an
  imported instance is allocated outside the two files; the builder stores its address
  and does not look into it.
\<close>

type_synonym addr = nat
type_synonym label = nat
type_synonym source = "nid option"

datatype op = opUnify | opGeq | OtherOp string

datatype kind = stringKind | bytesKind | boolKind | intKind | floatKind | numKind
  | durationKind | topKind | nonGround | kindOr kind kind

datatype arg = StringArg string | ErrorArg string | TokenArg token | NodeArg nid

datatype attributes = Attributes "string list"

datatype scope = structLitScope addr | lambdaExprScope addr

datatype cvalue =
    nil
  | topValue source
  | bottom source string "arg list"
  | basicType source kind
  | stringLit source string
  | bound source op kind cvalue
  | structLitRef addr
  | lambdaRef addr
  | fieldComprehension source cvalue bool
  | listValue source "(label \<times> cvalue) list" cvalue cvalue
  | disjunction source "(cvalue \<times> bool) list" bool
  | selectorExpr source cvalue label
  | nodeRef source scope
  | indexExpr source cvalue cvalue
  | sliceExpr source cvalue cvalue cvalue
  | callExpr source cvalue "cvalue list"
  | unaryExpr source op cvalue
  | binaryExpr source op cvalue cvalue
  | interpolation source kind "cvalue list"
  | listComprehension source cvalue
  | yieldRef addr
  | guard source cvalue cvalue
  | feed source cvalue addr
  | external string

type_synonym arc = "label \<times> cvalue"

record structLit =
  baseValue :: source
  arcs :: "arc list"
  emit :: cvalue
  template :: cvalue
  comprehensions :: "cvalue list"

record lambdaExpr =
  lambdaSource :: source
  params :: "arc list"
  lambdaValue :: cvalue

record yield =
  yieldSource :: source
  yieldOpt :: bool
  yieldKey :: cvalue
  yieldValue :: cvalue

text \<open>The disjunction under construction in \<^verbatim>\<open>walk\<close> and \<^verbatim>\<open>addDisjunctionElem\<close>.\<close>

record disjunctionLit =
  disjSource :: source
  dvalues :: "(cvalue \<times> bool) list"
  hasDefaults :: bool

record nodeError =
  errPath :: "string list"
  errNode :: nid
  Format :: string
  Args :: "arg list"

text \<open>
  \<^verbatim>\<open>astState\<close> is shared by all visitors of one build: the forward-reference root, the
  scope map and the diagnostics. The three object lists are the part of the Go heap that
  the builder allocates in.
\<close>

record astState =
  resolveRoot :: "addr option"
  astMap :: "nid \<Rightarrow> scope option"
  errors :: "nodeError list"
  structs :: "structLit list"
  lambdas :: "lambdaExpr list"
  yields :: "yield list"

text \<open>
  A visitor has a parent only to compute the path of a diagnostic
  (\<^verbatim>\<open>appendPath\<close>). A child visitor lives inside one call of its parent's \<^verbatim>\<open>walk\<close>,
  during which the parent's selectors do not change, so the child keeps the parent's path
  as \<open>parentPath\<close> (empty when there is no parent). \<^verbatim>\<open>doc\<close> is nil or a
  \<^verbatim>\<open>*docNode\<close> made for a field, here the identity of that field.
\<close>

record astVisitor =
  object :: addr
  parentPath :: "string list"
  sel :: string
  doc :: "nid option"
  inSelector :: int

text \<open>
  What \<^verbatim>\<open>walk\<close> calls outside the two files is a parameter of the embedding: the label
  interner, the token-to-operator table, the literal parser, \<^verbatim>\<open>literal.ParseQuotes\<close> and
  \<^verbatim>\<open>parseString\<close>, the builtin lookup, the predefined ranges and builtins,
  \<^verbatim>\<open>mkBin\<close>, \<^verbatim>\<open>newBound\<close>, and \<^verbatim>\<open>initLit\<close> (which sets a list's length and element
  type). \<^verbatim>\<open>ParseQuotes\<close> returns its error, or the quote info and the prefix length.

  For imports: \<^verbatim>\<open>literal.Unquote\<close> (\<open>None\<close> for an error), \<^verbatim>\<open>getBuiltinPkg\<close>,
  \<^verbatim>\<open>LookupImport\<close> of the build instance (\<open>None\<close> for nil), and \<open>importRoot\<close>, the
  value \<^verbatim>\<open>loadInstance(bimp).rootValue.evalPartial(ctx)\<close> of an imported instance. For
  fields: \<^verbatim>\<open>ast.LabelName\<close> and \<^verbatim>\<open>nodeLabel\<close>, each with its \<^verbatim>\<open>ok\<close>,
  \<^verbatim>\<open>createAttrs\<close> with its error (nil when there is none), the flag
  \<^verbatim>\<open>internal.DropOptional\<close>, and \<^verbatim>\<open>insertValue\<close>, a method of the record that enters
  an arc in it: the record it is called on is its last argument, and it returns the
  record as it leaves it.
\<close>

record env =
  label :: "string \<Rightarrow> bool \<Rightarrow> label"
  tokenMap :: "token \<Rightarrow> op"
  parse :: "nid \<Rightarrow> string \<Rightarrow> cvalue"
  ParseQuotes :: "string \<Rightarrow> string \<Rightarrow> string + (nat \<times> nat)"
  parseString :: "nid \<Rightarrow> nat \<Rightarrow> string \<Rightarrow> cvalue"
  getBuiltinShorthandPkg :: "string \<Rightarrow> addr option"
  predefinedRanges :: "string \<Rightarrow> cvalue option"
  lenBuiltin :: cvalue
  andBuiltin :: cvalue
  orBuiltin :: cvalue
  mkBin :: "op \<Rightarrow> cvalue \<Rightarrow> cvalue \<Rightarrow> cvalue"
  newBound :: "source \<Rightarrow> op \<Rightarrow> kind \<Rightarrow> cvalue \<Rightarrow> cvalue"
  initLit :: "source \<Rightarrow> arc list \<Rightarrow> cvalue \<times> cvalue"
  Unquote :: "string \<Rightarrow> string option"
  getBuiltinPkg :: "string \<Rightarrow> addr option"
  LookupImport :: "string \<Rightarrow> nat option"
  importRoot :: "nat \<Rightarrow> cvalue"
  LabelName :: "node \<Rightarrow> string \<times> bool"
  nodeLabel :: "node \<Rightarrow> label \<times> bool"
  createAttrs :: "source \<Rightarrow> string list \<Rightarrow> attributes option \<times> cvalue"
  DropOptional :: bool
  insertValue ::
    "label \<Rightarrow> bool \<Rightarrow> cvalue \<Rightarrow> attributes option \<Rightarrow> nid option \<Rightarrow> structLit \<Rightarrow> structLit"

subsection \<open>Helpers of the visitor\<close>

text \<open>
  Modelled from the spec: \<^verbatim>\<open>newExpr\<close>, \<^verbatim>\<open>newNode\<close> and \<^verbatim>\<open>newDecl\<close> are outside the two
  files; they wrap a node as the "source-position reference" of a value, here the node's
  identity.
\<close>

definition newExpr :: "node \<Rightarrow> source" where
  "newExpr x = Some (nodeId x)"

text \<open>
  Modelled from the spec: \<^verbatim>\<open>mkErr\<close> is outside the two files. The spec says that a node
  that cannot be built "returns a Bottom"; the bottom keeps the source, the format and the
  arguments it is made from.
\<close>

definition mkErr :: "source \<Rightarrow> string \<Rightarrow> arg list \<Rightarrow> cvalue" where
  "mkErr src format args = bottom src format args"

text \<open>
  Modelled from the spec: \<^verbatim>\<open>isBottom\<close> is outside the two files; the spec speaks of the
  lowering result being "itself a Bottom".
\<close>

definition isBottom :: "cvalue \<Rightarrow> bool" where
  "isBottom x = (case x of bottom src format args \<Rightarrow> True | _ \<Rightarrow> False)"

text \<open>
  Modelled from the spec: \<^verbatim>\<open>newStruct\<close> is outside the two files; \<^verbatim>\<open>mapScope\<close> uses it
  to hand out "a stable placeholder node", an empty record for the node.
\<close>

definition newStruct :: "source \<Rightarrow> structLit" where
  "newStruct src =
     \<lparr>baseValue = src, arcs = [], emit = nil, template = nil, comprehensions = []\<rparr>"

definition appendPath :: "astVisitor \<Rightarrow> string list \<Rightarrow> string list" where
  "appendPath v a = (a @ parentPath v) @ (if sel v \<noteq> [] then [sel v] else [])"

text \<open>
  \<^verbatim>\<open>errf\<close> adds a \<^verbatim>\<open>nodeError\<close> to the diagnostics of the build (\<^verbatim>\<open>errors.List.Add\<close>
  appends) and returns the bottom made by \<^verbatim>\<open>mkErr\<close>.
\<close>

definition errf ::
  "astVisitor \<Rightarrow> nid \<Rightarrow> string \<Rightarrow> arg list \<Rightarrow> astState \<Rightarrow> cvalue \<times> astState" where
  "errf v nd format args st =
     (mkErr (Some nd) format args,
      st\<lparr>errors := errors st @
            [\<lparr>errPath = appendPath v [], errNode = nd, Format = format, Args = args\<rparr>]\<rparr>)"

definition mapScope :: "nid \<Rightarrow> astState \<Rightarrow> scope \<times> astState" where
  "mapScope nd st =
     (case astMap st nd of
        Some m \<Rightarrow> (m, st)
      | None \<Rightarrow>
          (structLitScope (length (structs st)),
           st\<lparr>astMap := (astMap st)(nd \<mapsto> structLitScope (length (structs st))),
               structs := structs st @ [newStruct (Some nd)]\<rparr>))"

definition setScope :: "nid \<Rightarrow> scope \<Rightarrow> astState \<Rightarrow> panic + astState" where
  "setScope nd sc st =
     (case astMap st nd of
        Some m \<Rightarrow>
          if m \<noteq> sc then Inl AlreadyDefined
          else Inr (st\<lparr>astMap := (astMap st)(nd \<mapsto> sc)\<rparr>)
      | None \<Rightarrow> Inr (st\<lparr>astMap := (astMap st)(nd \<mapsto> sc)\<rparr>))"

text \<open>\<^verbatim>\<open>resolve\<close> returns the first arc of the root that has the label; nil when none.\<close>

definition resolve :: "env \<Rightarrow> astVisitor \<Rightarrow> nid \<Rightarrow> string \<Rightarrow> astState \<Rightarrow> cvalue" where
  "resolve E v nd name st =
     (case resolveRoot st of
        None \<Rightarrow> nil
      | Some r \<Rightarrow>
          if list_ex (\<lambda>a. fst a = label E name True) (arcs (structs st ! r))
          then selectorExpr (Some nd) (nodeRef (Some nd) (structLitScope r)) (label E name True)
          else if inSelector v > 0 then
            (case getBuiltinShorthandPkg E name of
               Some p \<Rightarrow> nodeRef (Some nd) (structLitScope p)
             | None \<Rightarrow> nil)
          else nil)"

text \<open>
  \<^verbatim>\<open>loadImport\<close> returns the builtin package of the path, or the root value of the
  imported instance, or the bottom of \<^verbatim>\<open>errf\<close> when the path cannot be unquoted or no
  package is found.
\<close>

definition loadImport ::
  "env \<Rightarrow> astVisitor \<Rightarrow> nid \<Rightarrow> string \<Rightarrow> astState \<Rightarrow> cvalue \<times> astState" where
  "loadImport E v imp path st =
     (case Unquote E path of
        None \<Rightarrow> errf v imp ''illformed import spec'' [] st
      | Some p \<Rightarrow>
          (case getBuiltinPkg E p of
             Some a \<Rightarrow> (structLitRef a, st)
           | None \<Rightarrow>
               (case LookupImport E p of
                  None \<Rightarrow> errf v imp ''package %q not found'' [StringArg p] st
                | Some bimp \<Rightarrow> (importRoot E bimp, st))))"

text \<open>The type assertion \<^verbatim>\<open>val.(*structLit)\<close>.\<close>

fun asStructLit :: "cvalue \<Rightarrow> addr option" where
  "asStructLit (structLitRef a) = Some a"
| "asStructLit x = None"

text \<open>
  \<^verbatim>\<open>passDoc\<close> in the case of a struct literal; the two ways in which a field changes
  the record of the visitor: \<^verbatim>\<open>v.object.comprehensions = append(...)\<close> and the assignment
  to \<^verbatim>\<open>v.object.template\<close>; and the assignments to a yield and to the value of a lambda.
\<close>

definition passDoc :: "node list \<Rightarrow> bool \<Rightarrow> astVisitor \<Rightarrow> bool" where
  "passDoc elts lbrace v = (length elts = 1 \<and> \<not> lbrace \<and> doc v \<noteq> None)"

text \<open>The visitor \<^verbatim>\<open>v1\<close> that the case of a struct literal makes for the elements.\<close>

definition structVisitor :: "astVisitor \<Rightarrow> addr \<Rightarrow> node list \<Rightarrow> bool \<Rightarrow> astVisitor" where
  "structVisitor v obj elts lbrace =
     \<lparr>object = obj, parentPath = appendPath v [], sel = [],
      doc = (if passDoc elts lbrace v then doc v else None), inSelector = 0\<rparr>"

definition addComprehension :: "addr \<Rightarrow> cvalue \<Rightarrow> astState \<Rightarrow> astState" where
  "addComprehension obj fc st =
     st\<lparr>structs := (structs st)[obj :=
          (structs st ! obj)\<lparr>comprehensions := comprehensions (structs st ! obj) @ [fc]\<rparr>]\<rparr>"

definition addTemplate :: "env \<Rightarrow> addr \<Rightarrow> cvalue \<Rightarrow> astState \<Rightarrow> astState" where
  "addTemplate E obj t st =
     st\<lparr>structs := (structs st)[obj :=
          (structs st ! obj)
            \<lparr>template :=
               (if template (structs st ! obj) = nil then t
                else mkBin E opUnify (template (structs st ! obj)) t)\<rparr>]\<rparr>"

definition setKey :: "addr \<Rightarrow> cvalue \<Rightarrow> astState \<Rightarrow> astState" where
  "setKey y k st = st\<lparr>yields := (yields st)[y := (yields st ! y)\<lparr>yieldKey := k\<rparr>]\<rparr>"

definition setYield :: "addr \<Rightarrow> cvalue \<Rightarrow> astState \<Rightarrow> astState" where
  "setYield y x st = st\<lparr>yields := (yields st)[y := (yields st ! y)\<lparr>yieldValue := x\<rparr>]\<rparr>"

definition setOpt :: "addr \<Rightarrow> bool \<Rightarrow> astState \<Rightarrow> astState" where
  "setOpt y opt st = st\<lparr>yields := (yields st)[y := (yields st ! y)\<lparr>yieldOpt := opt\<rparr>]\<rparr>"

definition setLambdaValue :: "addr \<Rightarrow> cvalue \<Rightarrow> astState \<Rightarrow> astState" where
  "setLambdaValue fn x st =
     st\<lparr>lambdas := (lambdas st)[fn := (lambdas st ! fn)\<lparr>lambdaValue := x\<rparr>]\<rparr>"

definition newYield :: "source \<Rightarrow> astState \<Rightarrow> astState" where
  "newYield src st =
     st\<lparr>yields := yields st @
           [\<lparr>yieldSource = src, yieldOpt = False, yieldKey = nil, yieldValue = nil\<rparr>]\<rparr>"

definition newLambda :: "source \<Rightarrow> arc list \<Rightarrow> astState \<Rightarrow> astState" where
  "newLambda src ps st =
     st\<lparr>lambdas := lambdas st @ [\<lparr>lambdaSource = src, params = ps, lambdaValue = nil\<rparr>]\<rparr>"

text \<open>\<^verbatim>\<open>strconv.Itoa\<close> on an index, and \<^verbatim>\<open>strings.HasPrefix\<close>.\<close>

definition digit :: "nat \<Rightarrow> char" where
  "digit d = char_of (48 + d)"

function Itoa :: "nat \<Rightarrow> string" where
  "Itoa i = (if i < 10 then [digit i] else Itoa (i div 10) @ [digit (i mod 10)])"
  by pat_completeness auto
termination
  by (relation "measure id") auto

definition HasPrefix :: "string \<Rightarrow> string \<Rightarrow> bool" where
  "HasPrefix s pre = (take (length pre) s = pre)"

definition unmatchedParen :: string where
  "unmatchedParen = ''invalid interpolation: unmatched '' @ [CHR 0x27, CHR '')'', CHR 0x27]"

text \<open>
  The first loop of \<^verbatim>\<open>wrapClauses\<close>: a new lambda for every \<^verbatim>\<open>for\<close> clause, entered in
  the scope map with \<^verbatim>\<open>setScope\<close>. It lowers nothing.
\<close>

fun registerFors :: "node list \<Rightarrow> astState \<Rightarrow> panic + astState" where
  "registerFors [] st = Inr st"
| "registerFors (c # cs) st =
     (case asForClause c of
        Some (ci, k, val, src) \<Rightarrow>
          (case setScope ci (lambdaExprScope (length (lambdas st)))
                  (st\<lparr>lambdas := lambdas st @
                        [\<lparr>lambdaSource = newExpr src, params = [], lambdaValue = nil\<rparr>]\<rparr>) of
             Inl p \<Rightarrow> Inl p
           | Inr st1 \<Rightarrow> registerFors cs st1)
      | None \<Rightarrow> registerFors cs st)"

text \<open>The case of \<^verbatim>\<open>walk\<close> for an identifier whose \<^verbatim>\<open>Node\<close> is nil.\<close>

definition identValue ::
  "env \<Rightarrow> astVisitor \<Rightarrow> nid \<Rightarrow> string \<Rightarrow> astState \<Rightarrow> cvalue \<times> astState" where
  "identValue E v i name st =
     (if resolve E v i name st \<noteq> nil then (resolve E v i name st, st)
      else if name = ''_'' then (topValue (Some i), st)
      else if name = ''string'' then (basicType (Some i) stringKind, st)
      else if name = ''bytes'' then (basicType (Some i) bytesKind, st)
      else if name = ''bool'' then (basicType (Some i) boolKind, st)
      else if name = ''int'' then (basicType (Some i) intKind, st)
      else if name = ''float'' then (basicType (Some i) floatKind, st)
      else if name = ''number'' then (basicType (Some i) numKind, st)
      else if name = ''duration'' then (basicType (Some i) durationKind, st)
      else if name = ''len'' then (lenBuiltin E, st)
      else if name = ''and'' then (andBuiltin E, st)
      else if name = ''or'' then (orBuiltin E, st)
      else (case predefinedRanges E name of
              Some r \<Rightarrow> (r, st)
            | None \<Rightarrow> errf v i ''reference %q not found'' [StringArg name] st))"

subsection \<open>walk, addDisjunctionElem and wrapClauses\<close>

text \<open>
  \<^verbatim>\<open>walk\<close> and the loops in it are one recursion. Every function takes the visitor and
  the state and returns a panic, or its result with the visitor and the state as it leaves
  them. \<open>walkDecls\<close> is the loop of the \<^verbatim>\<open>File\<close> case, \<open>walkSpecs\<close> that of an import
  declaration, \<open>walkFields\<close> that of a struct literal (it returns the bottom when the Go
  loop returns one for an emit declaration), \<open>walkElts\<close> that of a list
  literal (with the running index), \<open>walkArgs\<close> that of a call, \<open>walkParts\<close> that of an
  interpolation (it returns \<open>Inl\<close> of the bottom when the Go loop returns early), and
  \<open>walkOpt\<close> lowers a field that may be nil. \<^verbatim>\<open>wrapClauses\<close> is \<open>registerFors\<close> followed
  by \<open>wrapLoop\<close>, the loop that runs from the last clause to the first: \<open>wrapLoop\<close> on
  \<open>c # cs\<close> first handles \<open>cs\<close> and then \<open>c\<close>. A node type without a case in the
  type switch of \<^verbatim>\<open>walk\<close> panics.

  In the \<^verbatim>\<open>File\<close> case the second and later emit declarations unify the emit value of
  the object with the lowered expression; the expression of an emit declaration is an
  \<^verbatim>\<open>ast.Expr\<close>, which a file is not, so lowering it leaves that emit value alone, and the
  model reads it before the call.

  Modelled from the spec: \<^verbatim>\<open>params.add\<close> is outside the two files. A lambda has "two
  bound names (key, value)", a template is "a one-parameter lambda over the label value";
  \<^verbatim>\<open>add\<close> appends a parameter to those it is called on.
\<close>

type_synonym 'a result = "panic + ('a \<times> astVisitor \<times> astState)"

lemma asEmitDecl_size: "asEmitDecl d = Some x \<Longrightarrow> size x < size d"
  by (cases d) auto

lemma asBinaryExpr_size:
  "asBinaryExpr d = Some (tk, x, y) \<Longrightarrow> size x < size d \<and> size y < size d"
  by (cases d) auto

lemma asUnaryExpr_size: "asUnaryExpr d = Some (tk, x) \<Longrightarrow> size x < size d"
  by (cases d) auto

lemma asForClause_size: "asForClause d = Some (i, k, val, src) \<Longrightarrow> size src < size d"
  by (cases d) auto

lemma asIfClause_size: "asIfClause d = Some c \<Longrightarrow> size c < size d"
  by (cases d) auto

function (sequential) walk :: "env \<Rightarrow> astVisitor \<Rightarrow> node \<Rightarrow> astState \<Rightarrow> cvalue result"
  and walkDecls :: "env \<Rightarrow> astVisitor \<Rightarrow> node list \<Rightarrow> astState \<Rightarrow> unit result"
  and walkSpecs :: "env \<Rightarrow> astVisitor \<Rightarrow> node list \<Rightarrow> astState \<Rightarrow> unit result"
  and walkFields :: "env \<Rightarrow> astVisitor \<Rightarrow> node list \<Rightarrow> astState \<Rightarrow> (cvalue option) result"
  and walkElts :: "env \<Rightarrow> astVisitor \<Rightarrow> nat \<Rightarrow> node list \<Rightarrow> arc list \<Rightarrow> astState \<Rightarrow> (arc list) result"
  and walkArgs :: "env \<Rightarrow> astVisitor \<Rightarrow> node list \<Rightarrow> cvalue list \<Rightarrow> astState \<Rightarrow> (cvalue list) result"
  and walkParts :: "env \<Rightarrow> astVisitor \<Rightarrow> nid \<Rightarrow> nat \<Rightarrow> string \<Rightarrow> nat \<Rightarrow> node list \<Rightarrow> cvalue list \<Rightarrow> astState \<Rightarrow> (cvalue + cvalue list) result"
  and walkOpt :: "env \<Rightarrow> astVisitor \<Rightarrow> node option \<Rightarrow> astState \<Rightarrow> cvalue result"
  and addDisjunctionElem :: "env \<Rightarrow> astVisitor \<Rightarrow> disjunctionLit \<Rightarrow> node \<Rightarrow> bool \<Rightarrow> astState \<Rightarrow> disjunctionLit result"
  and wrapClauses :: "env \<Rightarrow> astVisitor \<Rightarrow> cvalue \<Rightarrow> node list \<Rightarrow> astState \<Rightarrow> cvalue result"
  and wrapLoop :: "env \<Rightarrow> astVisitor \<Rightarrow> cvalue \<Rightarrow> node list \<Rightarrow> astState \<Rightarrow> cvalue result"
where
  "walk E v (File i decls) st =
     (case walkDecls E
             \<lparr>object = object v, parentPath = [], sel = [], doc = None, inSelector = 0\<rparr>
             decls st of
        Inl p \<Rightarrow> Inl p
      | Inr (u, v1, st1) \<Rightarrow> Inr (structLitRef (object v), v, st1))"
| "walk E v (ImportDecl i specs) st =
     (case walkSpecs E v specs st of
        Inl p \<Rightarrow> Inl p
      | Inr (u, v1, st1) \<Rightarrow> Inr (nil, v1, st1))"
| "walk E v (ImportSpec i path) st =
     (case loadImport E v i path st of
        (val, st1) \<Rightarrow>
          if isBottom val then Inr (nil, v, st1)
          else
            (case asStructLit val of
               None \<Rightarrow> Inl TypeAssertion
             | Some a \<Rightarrow>
                 (case setScope i (structLitScope a) st1 of
                    Inl p \<Rightarrow> Inl p
                  | Inr st2 \<Rightarrow> Inr (nil, v, st2))))"
| "walk E v (StructLit i elts lbrace) st =
     (case mapScope i st of
        (lambdaExprScope fn, st1) \<Rightarrow> Inl TypeAssertion
      | (structLitScope obj, st1) \<Rightarrow>
          (case walkFields E (structVisitor v obj elts lbrace) elts st1 of
             Inl p \<Rightarrow> Inl p
           | Inr (Some b, v1, st2) \<Rightarrow> Inr (b, v, st2)
           | Inr (None, v1, st2) \<Rightarrow>
               Inr (structLitRef obj,
                    if passDoc elts lbrace v then v\<lparr>doc := doc v1\<rparr> else v, st2)))"
| "walk E v (ComprehensionDecl i fi lab val clauses) st =
     (case wrapClauses E v (yieldRef (length (yields st))) clauses (newYield (newExpr val) st) of
        Inl p \<Rightarrow> Inl p
      | Inr (cl, v1, st1) \<Rightarrow>
          if isInterpolation lab then
            (case walk E (v1\<lparr>sel := ''?''\<rparr>) lab st1 of
               Inl p \<Rightarrow> Inl p
             | Inr (k, v2, st2) \<Rightarrow>
                 (case walk E v2 val (setKey (length (yields st)) k st2) of
                    Inl p \<Rightarrow> Inl p
                  | Inr (x, v3, st3) \<Rightarrow>
                      Inr (nil, v3,
                           addComprehension (object v3) (fieldComprehension (Some i) cl False)
                             (setYield (length (yields st)) x st3))))
          else
            (case asTemplateLabel lab of
               Some name \<Rightarrow>
                 (case setScope fi (lambdaExprScope (length (lambdas st1)))
                         (newLambda (newExpr val)
                            [(label E name True, basicType (newExpr lab) stringKind)] st1) of
                    Inl p \<Rightarrow> Inl p
                  | Inr st2 \<Rightarrow>
                      (case walk E (v1\<lparr>sel := ''*''\<rparr>) val st2 of
                         Inl p \<Rightarrow> Inl p
                       | Inr (x, v2, st3) \<Rightarrow>
                           Inr (nil, v2,
                                addComprehension (object v2)
                                  (fieldComprehension (Some i) cl True)
                                  (setYield (length (yields st)) (lambdaRef (length (lambdas st1)))
                                     (setLambdaValue (length (lambdas st1)) x st3)))))
             | None \<Rightarrow>
                 if isNameLabel lab then
                   (if \<not> snd (LabelName E lab) then
                      (case errf v1 (nodeId lab) ''invalid field name: %v''
                              [NodeArg (nodeId lab)] st1 of
                         (b, st2) \<Rightarrow> Inr (b, v1, st2))
                    else if fst (LabelName E lab) \<noteq> [] then
                      (case walk E (v1\<lparr>sel := fst (LabelName E lab)\<rparr>) val
                              (setKey (length (yields st))
                                 (stringLit (newExpr lab) (fst (LabelName E lab))) st1) of
                         Inl p \<Rightarrow> Inl p
                       | Inr (x, v2, st2) \<Rightarrow>
                           Inr (nil, v2,
                                addComprehension (object v2)
                                  (fieldComprehension (Some i) cl False)
                                  (setYield (length (yields st)) x st2)))
                    else
                      Inr (nil, v1\<lparr>sel := fst (LabelName E lab)\<rparr>,
                           addComprehension (object v1) (fieldComprehension (Some i) cl False)
                             st1))
                 else Inl UnknownLabel))"
| "walk E v (Field i lab val opt attrs comments) st =
     (if isInterpolation lab then
        (case walk E (v\<lparr>sel := ''?''\<rparr>) lab (newYield (newExpr lab) st) of
           Inl p \<Rightarrow> Inl p
         | Inr (k, v1, st1) \<Rightarrow>
             (case walk E v1 val (setKey (length (yields st)) k st1) of
                Inl p \<Rightarrow> Inl p
              | Inr (x, v2, st2) \<Rightarrow>
                  Inr (nil, v2,
                       addComprehension (object v2)
                         (fieldComprehension (Some i) (yieldRef (length (yields st))) False)
                         (setOpt (length (yields st)) opt
                            (setYield (length (yields st)) x st2)))))
      else
        (case asTemplateLabel lab of
           Some name \<Rightarrow>
             (case setScope i (lambdaExprScope (length (lambdas st)))
                     (newLambda (Some i)
                        [(label E name True, basicType (newExpr lab) stringKind)] st) of
                Inl p \<Rightarrow> Inl p
              | Inr st1 \<Rightarrow>
                  (case walk E (v\<lparr>sel := ''*''\<rparr>) val st1 of
                     Inl p \<Rightarrow> Inl p
                   | Inr (x, v1, st2) \<Rightarrow>
                       Inr (nil, v1,
                            addTemplate E (object v1) (lambdaRef (length (lambdas st)))
                              (setLambdaValue (length (lambdas st)) x st2))))
         | None \<Rightarrow>
             if isNameLabel lab then
               (if DropOptional E \<and> opt then Inr (nil, v, st)
                else if snd (createAttrs E (Some i) attrs) \<noteq> nil then
                  Inr (snd (createAttrs E (Some i) attrs),
                       v\<lparr>sel := fst (LabelName E lab)\<rparr>, st)
                else if \<not> snd (nodeLabel E lab) then
                  (case errf (v\<lparr>sel := fst (LabelName E lab)\<rparr>) (nodeId lab)
                          ''invalid field name: %v'' [NodeArg (nodeId lab)] st of
                     (b, st1) \<Rightarrow> Inr (b, v\<lparr>sel := fst (LabelName E lab)\<rparr>, st1))
                else if fst (nodeLabel E lab) = 0 then
                  Inr (nil, v\<lparr>sel := fst (LabelName E lab)\<rparr>, st)
                else
                  (case walk E
                          (if 0 \<in> set comments
                           then v\<lparr>sel := fst (LabelName E lab), doc := Some i\<rparr>
                           else v\<lparr>sel := fst (LabelName E lab)\<rparr>)
                          val st of
                     Inl p \<Rightarrow> Inl p
                   | Inr (x, v1, st1) \<Rightarrow>
                       Inr (nil, v1\<lparr>doc := (if 0 \<in> set comments then doc v else None)\<rparr>,
                            st1\<lparr>structs := (structs st1)[object v1 :=
                                  insertValue E (fst (nodeLabel E lab)) opt x
                                    (fst (createAttrs E (Some i) attrs)) (doc v1)
                                    (structs st1 ! object v1)]\<rparr>)))
             else Inl UnknownLabel))"
| "walk E v (TemplateLabel i name) st = Inl Unimplemented"
| "walk E v (EmitDecl i x) st = Inl Unimplemented"
| "walk E v (Alias i x) st = Inr (nil, v, st)"
| "walk E v (BadDecl i) st = Inr (nil, v, st)"
| "walk E v (CommentGroup i) st = Inr (nil, v, st)"
| "walk E v (ListLit i elts ellipsis typ) st =
     (case walkElts E
             \<lparr>object = object v, parentPath = appendPath v [], sel = [], doc = None,
              inSelector = 0\<rparr>
             0 elts [] st of
        Inl p \<Rightarrow> Inl p
      | Inr (as, v1, st1) \<Rightarrow>
          if ellipsis \<or> typ \<noteq> None then
            (case typ of
               None \<Rightarrow>
                 Inr (listValue (Some i) as
                        (newBound E (Some i) opGeq intKind (fst (initLit E (Some i) as)))
                        (snd (initLit E (Some i) as)), v, st1)
             | Some t \<Rightarrow>
                 (case walk E v1 t st1 of
                    Inl p \<Rightarrow> Inl p
                  | Inr (tv, v2, st2) \<Rightarrow>
                      Inr (listValue (Some i) as
                             (newBound E (Some i) opGeq intKind (fst (initLit E (Some i) as)))
                             tv, v, st2)))
          else Inr (listValue (Some i) as (fst (initLit E (Some i) as))
                      (snd (initLit E (Some i) as)), v, st1))"
| "walk E v (ListComprehension i x clauses) st =
     (case wrapClauses E v (yieldRef (length (yields st))) clauses
             (st\<lparr>yields := yields st @
                   [\<lparr>yieldSource = newExpr x, yieldOpt = False, yieldKey = nil, yieldValue = nil\<rparr>]\<rparr>) of
        Inl p \<Rightarrow> Inl p
      | Inr (cl, v1, st1) \<Rightarrow>
          (case walk E v1 x st1 of
             Inl p \<Rightarrow> Inl p
           | Inr (xv, v2, st2) \<Rightarrow>
               Inr (listComprehension (Some i) cl, v2,
                    st2\<lparr>yields := (yields st2)[length (yields st) :=
                           (yields st2 ! length (yields st))\<lparr>yieldValue := xv\<rparr>]\<rparr>)))"
| "walk E v (ForClause i k val src) st = Inl Unimplemented"
| "walk E v (IfClause i c) st = Inl Unimplemented"
| "walk E v (Ident i name Unresolved sc) st =
     (case identValue E v i name st of (x, st1) \<Rightarrow> Inr (x, v, st1))"
| "walk E v (Ident i name (ToAlias x) sc) st = walk E v x st"
| "walk E v (Ident i name (ToNode nd) sc) st =
     (case sc of
        Some s \<Rightarrow>
          (case mapScope s st of
             (n2, st1) \<Rightarrow>
               Inr (selectorExpr (Some i) (nodeRef (Some i) n2) (label E name True), v, st1))
      | None \<Rightarrow>
          (case mapScope nd st of
             (n2, st1) \<Rightarrow> Inr (nodeRef (Some i) n2, v, st1)))"
| "walk E v (BottomLit i) st = Inr (bottom (Some i) ''from source'' [], v, st)"
| "walk E v (BadExpr i) st =
     (case errf v i ''invalid expression'' [] st of (b, st1) \<Rightarrow> Inr (b, v, st1))"
| "walk E v (BasicLit i s) st = Inr (parse E i s, v, st)"
| "walk E v (Interpolation i []) st =
     (case errf v i ''invalid interpolation'' [] st of (b, st1) \<Rightarrow> Inr (b, v, st1))"
| "walk E v (Interpolation i [x]) st =
     (case asBasicLit x of
        Some lit \<Rightarrow> walk E v x st
      | None \<Rightarrow>
          (case errf v i ''invalid interpolation'' [] st of (b, st1) \<Rightarrow> Inr (b, v, st1)))"
| "walk E v (Interpolation i (x # y # zs)) st =
     (case (asBasicLit x, asBasicLit (last (y # zs))) of
        (Some l0, Some l1) \<Rightarrow>
          (case ParseQuotes E (snd l0) (snd l1) of
             Inl err \<Rightarrow>
               (case errf v i ''invalid interpolation: %v'' [ErrorArg err] st of
                  (b, st1) \<Rightarrow> Inr (b, v, st1))
           | Inr (info, prefixLen) \<Rightarrow>
               (case walkParts E v i info [] prefixLen (x # y # zs) [] st of
                  Inl p \<Rightarrow> Inl p
                | Inr (Inl b, v1, st1) \<Rightarrow> Inr (b, v1, st1)
                | Inr (Inr parts, v1, st1) \<Rightarrow>
                    Inr (interpolation (Some i) stringKind parts, v1, st1)))
      | _ \<Rightarrow>
          (case errf v i ''invalid interpolation'' [] st of (b, st1) \<Rightarrow> Inr (b, v, st1)))"
| "walk E v (ParenExpr i x) st = walk E v x st"
| "walk E v (SelectorExpr i x name) st =
     (case walk E (v\<lparr>inSelector := inSelector v + 1\<rparr>) x st of
        Inl p \<Rightarrow> Inl p
      | Inr (xv, v1, st1) \<Rightarrow>
          Inr (selectorExpr (Some i) xv (label E name True),
               v1\<lparr>inSelector := inSelector v1 - 1\<rparr>, st1))"
| "walk E v (IndexExpr i x y) st =
     (case walk E v x st of
        Inl p \<Rightarrow> Inl p
      | Inr (xv, v1, st1) \<Rightarrow>
          (case walk E v1 y st1 of
             Inl p \<Rightarrow> Inl p
           | Inr (yv, v2, st2) \<Rightarrow> Inr (indexExpr (Some i) xv yv, v2, st2)))"
| "walk E v (SliceExpr i x lo hi) st =
     (case walk E v x st of
        Inl p \<Rightarrow> Inl p
      | Inr (xv, v1, st1) \<Rightarrow>
          (case walkOpt E v1 lo st1 of
             Inl p \<Rightarrow> Inl p
           | Inr (lov, v2, st2) \<Rightarrow>
               (case walkOpt E v2 hi st2 of
                  Inl p \<Rightarrow> Inl p
                | Inr (hiv, v3, st3) \<Rightarrow> Inr (sliceExpr (Some i) xv lov hiv, v3, st3))))"
| "walk E v (CallExpr i f xs) st =
     (case walk E v f st of
        Inl p \<Rightarrow> Inl p
      | Inr (fv, v1, st1) \<Rightarrow>
          (case walkArgs E v1 xs [] st1 of
             Inl p \<Rightarrow> Inl p
           | Inr (avs, v2, st2) \<Rightarrow> Inr (callExpr (Some i) fv avs, v2, st2)))"
| "walk E v (UnaryExpr i tk x) st =
     (if tk = NOT \<or> tk = ADD \<or> tk = SUB then
        (case walk E v x st of
           Inl p \<Rightarrow> Inl p
         | Inr (xv, v1, st1) \<Rightarrow> Inr (unaryExpr (Some i) (tokenMap E tk) xv, v1, st1))
      else if tk = GEQ \<or> tk = GTR \<or> tk = LSS \<or> tk = LEQ \<or> tk = NEQ \<or> tk = MAT \<or> tk = NMAT then
        (case walk E v x st of
           Inl p \<Rightarrow> Inl p
         | Inr (xv, v1, st1) \<Rightarrow>
             Inr (newBound E (Some i) (tokenMap E tk) (kindOr topKind nonGround) xv, v1, st1))
      else if tk = MUL then
        (case errf v i ''preference mark not allowed at this position'' [] st of
           (b, st1) \<Rightarrow> Inr (b, v, st1))
      else
        (case errf v i ''unsupported unary operator %q'' [TokenArg tk] st of
           (b, st1) \<Rightarrow> Inr (b, v, st1)))"
| "walk E v (BinaryExpr i tk x y) st =
     (if tk = OR then
        (case addDisjunctionElem E v \<lparr>disjSource = Some i, dvalues = [], hasDefaults = False\<rparr>
                x False st of
           Inl p \<Rightarrow> Inl p
         | Inr (d1, v1, st1) \<Rightarrow>
             (case addDisjunctionElem E v1 d1 y False st1 of
                Inl p \<Rightarrow> Inl p
              | Inr (d2, v2, st2) \<Rightarrow>
                  Inr (disjunction (disjSource d2) (dvalues d2) (hasDefaults d2), v2, st2)))
      else
        (case walk E v x st of
           Inl p \<Rightarrow> Inl p
         | Inr (xv, v1, st1) \<Rightarrow>
             (case walk E v1 y st1 of
                Inl p \<Rightarrow> Inl p
              | Inr (yv, v2, st2) \<Rightarrow>
                  Inr (binaryExpr (Some i) (tokenMap E tk) xv yv, v2, st2))))"
| "walkDecls E v1 [] st = Inr ((), v1, st)"
| "walkDecls E v1 (d # ds) st =
     (case asEmitDecl d of
        Some x \<Rightarrow>
          (if emit (structs st ! object v1) = nil then
             (case walk E v1 x st of
                Inl p \<Rightarrow> Inl p
              | Inr (xv, v2, st1) \<Rightarrow>
                  walkDecls E v2 ds
                    (st1\<lparr>structs := (structs st1)[object v2 :=
                           (structs st1 ! object v2)\<lparr>emit := xv\<rparr>]\<rparr>))
           else
             (case walk E v1 x st of
                Inl p \<Rightarrow> Inl p
              | Inr (xv, v2, st1) \<Rightarrow>
                  walkDecls E v2 ds
                    (st1\<lparr>structs := (structs st1)[object v2 :=
                           (structs st1 ! object v2)
                             \<lparr>emit := mkBin E opUnify (emit (structs st ! object v1)) xv\<rparr>]\<rparr>)))
      | None \<Rightarrow>
          (case walk E v1 d st of
             Inl p \<Rightarrow> Inl p
           | Inr (x, v2, st1) \<Rightarrow> walkDecls E v2 ds st1))"
| "walkSpecs E v [] st = Inr ((), v, st)"
| "walkSpecs E v (s # ss) st =
     (case walk E v s st of
        Inl p \<Rightarrow> Inl p
      | Inr (x, v1, st1) \<Rightarrow> walkSpecs E v1 ss st1)"
| "walkFields E v1 [] st = Inr (None, v1, st)"
| "walkFields E v1 (e # es) st =
     (case asEmitDecl e of
        Some x \<Rightarrow>
          (case errf v1 (nodeId e) ''emitting values is only allowed at top level'' [] st of
             (b, st1) \<Rightarrow> Inr (Some b, v1, st1))
      | None \<Rightarrow>
          if isStructElt e then
            (case walk E v1 e st of
               Inl p \<Rightarrow> Inl p
             | Inr (x, v2, st1) \<Rightarrow> walkFields E v2 es st1)
          else walkFields E v1 es st)"
| "walkElts E v1 i [] as st = Inr (as, v1, st)"
| "walkElts E v1 i (x # xs) as st =
     (case walk E (v1\<lparr>sel := Itoa i\<rparr>) x st of
        Inl p \<Rightarrow> Inl p
      | Inr (xv, v2, st1) \<Rightarrow> walkElts E v2 (i + 1) xs (as @ [(i, xv)]) st1)"
| "walkArgs E v [] avs st = Inr (avs, v, st)"
| "walkArgs E v (x # xs) avs st =
     (case walk E v x st of
        Inl p \<Rightarrow> Inl p
      | Inr (xv, v1, st1) \<Rightarrow> walkArgs E v1 xs (avs @ [xv]) st1)"
| "walkParts E v ni info pre prefixLen [] parts st = Inr (Inr parts, v, st)"
| "walkParts E v ni info pre prefixLen (l # rest) parts st =
     (case asBasicLit l of
        None \<Rightarrow>
          (case errf v ni ''invalid interpolation'' [] st of
             (b, st1) \<Rightarrow> Inr (Inl b, v, st1))
      | Some (li, s) \<Rightarrow>
          (if \<not> HasPrefix s pre then
             (case errf v li unmatchedParen [] st of
                (b, st1) \<Rightarrow> Inr (Inl b, v, st1))
           else if prefixLen > length s then Inl SliceBounds
           else
             (case rest of
                [] \<Rightarrow> Inr (Inr (parts @ [parseString E li info (drop prefixLen s)]), v, st)
              | x # rest' \<Rightarrow>
                  (case walk E v x st of
                     Inl p \<Rightarrow> Inl p
                   | Inr (xv, v1, st1) \<Rightarrow>
                       walkParts E v1 ni info '')'' 1 rest'
                         (parts @ [parseString E li info (drop prefixLen s), xv]) st1))))"
| "walkOpt E v None st = Inr (nil, v, st)"
| "walkOpt E v (Some x) st = walk E v x st"
| "addDisjunctionElem E v d nd mark st =
     (case asBinaryExpr nd of
        Some (tk, x, y) \<Rightarrow>
          (if tk = OR then
             (case addDisjunctionElem E v d x mark st of
                Inl p \<Rightarrow> Inl p
              | Inr (d1, v1, st1) \<Rightarrow> addDisjunctionElem E v1 d1 y mark st1)
           else
             (case walk E v nd st of
                Inl p \<Rightarrow> Inl p
              | Inr (xv, v1, st1) \<Rightarrow> Inr (d\<lparr>dvalues := dvalues d @ [(xv, mark)]\<rparr>, v1, st1)))
      | None \<Rightarrow>
          (case asUnaryExpr nd of
             Some (tk, x) \<Rightarrow>
               (case walk E v (if tk = MUL then x else nd) st of
                  Inl p \<Rightarrow> Inl p
                | Inr (xv, v1, st1) \<Rightarrow>
                    Inr (d\<lparr>hasDefaults := True,
                           dvalues := dvalues d @ [(xv, if tk = MUL then True else mark)]\<rparr>,
                         v1, st1))
           | None \<Rightarrow>
               (case walk E v nd st of
                  Inl p \<Rightarrow> Inl p
                | Inr (xv, v1, st1) \<Rightarrow>
                    Inr (d\<lparr>dvalues := dvalues d @ [(xv, mark)]\<rparr>, v1, st1))))"
| "wrapClauses E v y clauses st =
     (case registerFors clauses st of
        Inl p \<Rightarrow> Inl p
      | Inr st1 \<Rightarrow> wrapLoop E v y clauses st1)"
| "wrapLoop E v y [] st = Inr (y, v, st)"
| "wrapLoop E v y (c # cs) st =
     (case wrapLoop E v y cs st of
        Inl p \<Rightarrow> Inl p
      | Inr (y1, v1, st1) \<Rightarrow>
          (case asForClause c of
             Some (ci, k, val, src) \<Rightarrow>
               (case mapScope ci st1 of
                  (structLitScope a, st2) \<Rightarrow> Inl TypeAssertion
                | (lambdaExprScope fn, st2) \<Rightarrow>
                    (case walk E v1 src
                            (st2\<lparr>lambdas := (lambdas st2)[fn :=
                                   (lambdas st2 ! fn)
                                     \<lparr>lambdaValue := y1,
                                      params := params (lambdas st2 ! fn) @
                                        [(label E (case k of None \<Rightarrow> ''_'' | Some kn \<Rightarrow> snd kn) True,
                                          basicType (map_option fst k) (kindOr stringKind intKind)),
                                         (label E (snd val) True, topValue None)]\<rparr>]\<rparr>) of
                       Inl p \<Rightarrow> Inl p
                     | Inr (sv, v2, st3) \<Rightarrow> Inr (feed (newExpr src) sv fn, v2, st3)))
           | None \<Rightarrow>
               (case asIfClause c of
                  Some c' \<Rightarrow>
                    (case walk E v1 c' st1 of
                       Inl p \<Rightarrow> Inl p
                     | Inr (cv, v2, st2) \<Rightarrow> Inr (guard (newExpr c') cv y1, v2, st2))
                | None \<Rightarrow> Inr (y1, v1, st1))))"
  by pat_completeness auto

termination
  apply (relation "measure (\<lambda>t. case t of
        Inl (Inl (Inl (E, v, x, st))) \<Rightarrow> 2 * size x
      | Inl (Inl (Inr (E, v, ds, st))) \<Rightarrow> 2 * size_list size ds
      | Inl (Inr (Inl (E, v, ss, st))) \<Rightarrow> 2 * size_list size ss
      | Inl (Inr (Inr (Inl (E, v, es, st)))) \<Rightarrow> 2 * size_list size es
      | Inl (Inr (Inr (Inr (E, v, i, xs, as, st)))) \<Rightarrow> 2 * size_list size xs
      | Inr (Inl (Inl (E, v, xs, avs, st))) \<Rightarrow> 2 * size_list size xs
      | Inr (Inl (Inr (Inl (E, v, ni, info, pre, pl, xs, parts, st)))) \<Rightarrow>
          2 * size_list size xs
      | Inr (Inl (Inr (Inr (E, v, xo, st)))) \<Rightarrow> 2 * size_option size xo
      | Inr (Inr (Inl (E, v, d, x, mark, st))) \<Rightarrow> 2 * size x + 1
      | Inr (Inr (Inr (Inl (E, v, y, cs, st)))) \<Rightarrow> 2 * size_list size cs + 1
      | Inr (Inr (Inr (Inr (E, v, y, cs, st)))) \<Rightarrow> 2 * size_list size cs)")
  apply (auto dest: asEmitDecl_size asBinaryExpr_size asUnaryExpr_size asForClause_size
           asIfClause_size sym)
  done

declare walk.simps [simp del] walkDecls.simps [simp del] walkSpecs.simps [simp del]
  walkFields.simps [simp del] walkElts.simps [simp del]
  walkArgs.simps [simp del] walkParts.simps [simp del] walkOpt.simps [simp del]
  addDisjunctionElem.simps [simp del] wrapClauses.simps [simp del] wrapLoop.simps [simp del]

subsection \<open>insertFile\<close>

text \<open>
  \<^verbatim>\<open>insertFile\<close> makes a visitor on the root record of the instance with a state of its
  own, enters the file in the scope map and walks it. It returns the diagnostics when the
  result is a bottom and there are any, a \<^verbatim>\<open>callError\<close> for a bottom without
  diagnostics, and nil otherwise. The visitor and its state are local to the call: what the
  caller gets is the error and the heap, which the model returns as the three object lists.
\<close>

record Instance =
  rootStruct :: addr
  scope :: "addr option"

datatype insertError = ErrorList "nodeError list" | callError cvalue

definition newVisitor :: "addr \<Rightarrow> astVisitor" where
  "newVisitor obj = \<lparr>object = obj, parentPath = [], sel = [], doc = None, inSelector = 0\<rparr>"

definition newState ::
  "addr option \<Rightarrow> structLit list \<Rightarrow> lambdaExpr list \<Rightarrow> yield list \<Rightarrow> astState" where
  "newState root ss ls ys =
     \<lparr>resolveRoot = root, astMap = Map.empty, errors = [], structs = ss, lambdas = ls,
      yields = ys\<rparr>"

definition fileState ::
  "Instance \<Rightarrow> nid \<Rightarrow> structLit list \<Rightarrow> lambdaExpr list \<Rightarrow> yield list \<Rightarrow> astState" where
  "fileState inst f ss ls ys =
     (newState (scope inst) ss ls ys)
       \<lparr>astMap := Map.empty(f \<mapsto> structLitScope (rootStruct inst))\<rparr>"

definition insertFile ::
  "env \<Rightarrow> Instance \<Rightarrow> nid \<Rightarrow> node list \<Rightarrow> structLit list \<Rightarrow> lambdaExpr list \<Rightarrow> yield list
     \<Rightarrow> panic + (insertError option \<times> structLit list \<times> lambdaExpr list \<times> yield list)" where
  "insertFile E inst f decls ss ls ys =
     (case walk E (newVisitor (rootStruct inst)) (File f decls) (fileState inst f ss ls ys) of
        Inl p \<Rightarrow> Inl p
      | Inr (result, v, st) \<Rightarrow>
          if isBottom result then
            (if errors st \<noteq> [] then
               Inr (Some (ErrorList (errors st)), structs st, lambdas st, yields st)
             else Inr (Some (callError result), structs st, lambdas st, yields st))
          else Inr (None, structs st, lambdas st, yields st))"

subsection \<open>The flattened branch list of a disjunction\<close>

text \<open>
  The spec's account of a disjunction, to compare \<^verbatim>\<open>walk\<close> with: a chain of \<^verbatim>\<open>|\<close> is
  flattened "into one ordered branch list (recursion on both operands when the operand is
  itself an \<^verbatim>\<open>|\<close> expression; otherwise the operand is one branch)", and "a branch prefixed
  with the default marker (\<^verbatim>\<open>*\<close>) is lowered with that prefix stripped and flagged".
  \<open>branches mark x\<close> is that list for the operand \<open>x\<close>: the nodes to lower, in source
  order, each with its flag.
\<close>

fun branches :: "bool \<Rightarrow> node \<Rightarrow> (node \<times> bool) list" where
  "branches mark (BinaryExpr i tk x y) =
     (if tk = OR then branches mark x @ branches mark y else [(BinaryExpr i tk x y, mark)])"
| "branches mark (UnaryExpr i tk x) =
     (if tk = MUL then [(x, True)] else [(UnaryExpr i tk x, mark)])"
| "branches mark x = [(x, mark)]"

text \<open>
  \<open>starBranch x\<close>: a branch of the flattened operand \<open>x\<close> carries the default marker.
  \<open>unaryBranch x\<close>: a branch of the flattened operand is a unary expression, with
  whatever operator.
\<close>

fun starBranch :: "node \<Rightarrow> bool" where
  "starBranch (BinaryExpr i tk x y) = (tk = OR \<and> (starBranch x \<or> starBranch y))"
| "starBranch (UnaryExpr i tk x) = (tk = MUL)"
| "starBranch x = False"

fun unaryBranch :: "node \<Rightarrow> bool" where
  "unaryBranch (BinaryExpr i tk x y) = (tk = OR \<and> (unaryBranch x \<or> unaryBranch y))"
| "unaryBranch (UnaryExpr i tk x) = True"
| "unaryBranch x = False"

text \<open>Lowering the nodes of a branch list from left to right, keeping the flags.\<close>

fun walkBranches ::
  "env \<Rightarrow> astVisitor \<Rightarrow> (node \<times> bool) list \<Rightarrow> astState \<Rightarrow> ((cvalue \<times> bool) list) result"
  where
  "walkBranches E v [] st = Inr ([], v, st)"
| "walkBranches E v (b # bs) st =
     (case walk E v (fst b) st of
        Inl p \<Rightarrow> Inl p
      | Inr (xv, v1, st1) \<Rightarrow>
          (case walkBranches E v1 bs st1 of
             Inl p \<Rightarrow> Inl p
           | Inr (vs, v2, st2) \<Rightarrow> Inr ((xv, snd b) # vs, v2, st2)))"

subsection \<open>The layers of a desugared comprehension\<close>

text \<open>
  The spec's account of \<^verbatim>\<open>wrapClauses\<close>, to compare the code with: "each \<^verbatim>\<open>for\<close>
  clause becomes an iteration node parametrized by a lambda with two bound names (key,
  value -- key defaults to the wildcard name \<^verbatim>\<open>_\<close> when absent) whose body is the
  next-inner emitter, and wraps the source collection expression; each \<^verbatim>\<open>if\<close> clause
  becomes a guard node wrapping the inner emitter". \<open>desugared E st cs y y'\<close> reads the
  value \<open>y'\<close> in the state \<open>st\<close> from the outside in, along the clauses \<open>cs\<close> from the
  first to the last, down to the emitter \<open>y\<close>: a \<^verbatim>\<open>for\<close> clause asks for a feed whose
  lambda is the one the scope map gives the clause, has exactly the two parameters and has
  the rest as its body; an \<^verbatim>\<open>if\<close> clause asks for a guard around the rest.
\<close>

fun asFeed :: "cvalue \<Rightarrow> (source \<times> cvalue \<times> addr) option" where
  "asFeed (feed s sv fn) = Some (s, sv, fn)"
| "asFeed x = None"

fun asGuard :: "cvalue \<Rightarrow> (source \<times> cvalue \<times> cvalue) option" where
  "asGuard (guard s cv inner) = Some (s, cv, inner)"
| "asGuard x = None"

fun desugared :: "env \<Rightarrow> astState \<Rightarrow> node list \<Rightarrow> cvalue \<Rightarrow> cvalue \<Rightarrow> bool" where
  "desugared E st [] y y' = (y' = y)"
| "desugared E st (c # cs) y y' =
     (case asForClause c of
        Some (ci, k, val, src) \<Rightarrow>
          (case asFeed y' of
             Some (s, sv, fn) \<Rightarrow>
               s = newExpr src \<and> astMap st ci = Some (lambdaExprScope fn)
               \<and> fn < length (lambdas st)
               \<and> params (lambdas st ! fn) =
                   [(label E (case k of None \<Rightarrow> ''_'' | Some kn \<Rightarrow> snd kn) True,
                     basicType (map_option fst k) (kindOr stringKind intKind)),
                    (label E (snd val) True, topValue None)]
               \<and> desugared E st cs y (lambdaValue (lambdas st ! fn))
           | None \<Rightarrow> False)
      | None \<Rightarrow>
          (case asIfClause c of
             Some c' \<Rightarrow>
               (case asGuard y' of
                  Some (s, cv, inner) \<Rightarrow> s = newExpr c' \<and> desugared E st cs y inner
                | None \<Rightarrow> False)
           | None \<Rightarrow> desugared E st cs y y'))"

text \<open>
  \<open>registered st cs\<close>: in the state \<open>st\<close> the scope map gives every \<^verbatim>\<open>for\<close> clause of
  \<open>cs\<close> a lambda of its own that is allocated and has no parameter yet. \<open>forTargets\<close>
  lists the lambdas of the \<^verbatim>\<open>for\<close> clauses.
\<close>

fun forTargets :: "astState \<Rightarrow> node list \<Rightarrow> addr list" where
  "forTargets st [] = []"
| "forTargets st (c # cs) =
     (case asForClause c of
        Some (ci, k, val, src) \<Rightarrow>
          (case astMap st ci of
             Some (lambdaExprScope fn) \<Rightarrow> fn # forTargets st cs
           | _ \<Rightarrow> forTargets st cs)
      | None \<Rightarrow> forTargets st cs)"

fun registered :: "astState \<Rightarrow> node list \<Rightarrow> bool" where
  "registered st [] = True"
| "registered st (c # cs) =
     ((case asForClause c of
         Some (ci, k, val, src) \<Rightarrow>
           (case astMap st ci of
              Some (lambdaExprScope fn) \<Rightarrow>
                fn < length (lambdas st) \<and> params (lambdas st ! fn) = []
                \<and> fn \<notin> set (forTargets st cs)
            | _ \<Rightarrow> False)
       | None \<Rightarrow> True)
      \<and> registered st cs)"

text \<open>The body of the second loop of \<^verbatim>\<open>wrapClauses\<close> for one clause.\<close>

definition wrapStep :: "env \<Rightarrow> node \<Rightarrow> cvalue \<Rightarrow> astVisitor \<Rightarrow> astState \<Rightarrow> cvalue result" where
  "wrapStep E c y1 v1 st1 =
     (case asForClause c of
        Some (ci, k, val, src) \<Rightarrow>
          (case mapScope ci st1 of
             (structLitScope a, st2) \<Rightarrow> Inl TypeAssertion
           | (lambdaExprScope fn, st2) \<Rightarrow>
               (case walk E v1 src
                       (st2\<lparr>lambdas := (lambdas st2)[fn :=
                              (lambdas st2 ! fn)
                                \<lparr>lambdaValue := y1,
                                 params := params (lambdas st2 ! fn) @
                                   [(label E (case k of None \<Rightarrow> ''_'' | Some kn \<Rightarrow> snd kn) True,
                                     basicType (map_option fst k) (kindOr stringKind intKind)),
                                    (label E (snd val) True, topValue None)]\<rparr>]\<rparr>) of
                  Inl p \<Rightarrow> Inl p
                | Inr (sv, v2, st3) \<Rightarrow> Inr (feed (newExpr src) sv fn, v2, st3)))
      | None \<Rightarrow>
          (case asIfClause c of
             Some c' \<Rightarrow>
               (case walk E v1 c' st1 of
                  Inl p \<Rightarrow> Inl p
                | Inr (cv, v2, st2) \<Rightarrow> Inr (guard (newExpr c') cv y1, v2, st2))
           | None \<Rightarrow> Inr (y1, v1, st1)))"

subsection \<open>A recorded failure\<close>

text \<open>
  The spec's account of a failing node, to compare the code with: the failure is
  "captured as Bottom values at the smallest possible subtree and simultaneously appended to
  a build-wide diagnostics list". \<open>failed n format args\<close> is the bottom for the node
  \<open>n\<close>, and \<open>recorded v n format args st\<close> is the state \<open>st\<close> with the diagnostic of the
  visitor \<open>v\<close> for the node appended to the list.
\<close>

definition failed :: "nid \<Rightarrow> string \<Rightarrow> arg list \<Rightarrow> cvalue" where
  "failed n format args = bottom (Some n) format args"

definition recorded :: "astVisitor \<Rightarrow> nid \<Rightarrow> string \<Rightarrow> arg list \<Rightarrow> astState \<Rightarrow> astState" where
  "recorded v n format args st =
     st\<lparr>errors := errors st @
           [\<lparr>errPath = appendPath v [], errNode = n, Format = format, Args = args\<rparr>]\<rparr>"

text \<open>The identifiers that \<^verbatim>\<open>walk\<close> knows without a declaration.\<close>

definition predeclared :: "string list" where
  "predeclared =
     [''_'', ''string'', ''bytes'', ''bool'', ''int'', ''float'', ''number'', ''duration'',
      ''len'', ''and'', ''or'']"

subsection \<open>What lowering leaves untouched\<close>

text \<open>
  \<open>frameX T st st'\<close> relates the state before and after a piece of lowering: the scope
  map only grows, a node that enters it with a lambda gets a lambda allocated since, the
  list of lambdas only grows, the lambdas it held keep their contents, those of \<open>T\<close>
  excepted, and the diagnostics are only added to. \<open>targets st cs\<close> are the lambdas of the \<^verbatim>\<open>for\<close> clauses of \<open>cs\<close>, and
  \<open>ok T st res\<close> says that a result that is not a panic is framed.
\<close>

definition frameX :: "nat set \<Rightarrow> astState \<Rightarrow> astState \<Rightarrow> bool" where
  "frameX T st st' \<longleftrightarrow>
     (\<forall>nd s. astMap st nd = Some s \<longrightarrow> astMap st' nd = Some s)
     \<and> (\<forall>nd fn. astMap st nd = None \<longrightarrow> astMap st' nd = Some (lambdaExprScope fn)
            \<longrightarrow> length (lambdas st) \<le> fn)
     \<and> length (lambdas st) \<le> length (lambdas st')
     \<and> (\<forall>fn<length (lambdas st). fn \<notin> T \<longrightarrow> lambdas st' ! fn = lambdas st ! fn)
     \<and> prefix (errors st) (errors st')"

abbreviation frame :: "astState \<Rightarrow> astState \<Rightarrow> bool" where
  "frame \<equiv> frameX {}"

definition targets :: "astState \<Rightarrow> node list \<Rightarrow> nat set" where
  "targets st cs =
     {fn. \<exists>c\<in>set cs. \<exists>ci k val src. asForClause c = Some (ci, k, val, src)
            \<and> astMap st ci = Some (lambdaExprScope fn)}"

definition ok :: "nat set \<Rightarrow> astState \<Rightarrow> 'a result \<Rightarrow> bool" where
  "ok T st res = (case res of Inl p \<Rightarrow> True | Inr (r, v', st') \<Rightarrow> frameX T st st')"

subsection \<open>Concrete inputs\<close>

text \<open>
  An environment for the parts outside the two files, with which the builder can be run:
  three labels, a few operators, literals kept as their text, quotes that parse unless
  the first literal is \<^verbatim>\<open>?\<close>, no package but paths that unquote unless they are \<^verbatim>\<open>bad\<close>,
  and labels that are valid names unless they are the literal \<^verbatim>\<open>-\<close>.
\<close>

definition demoEnv :: env where
  "demoEnv =
     \<lparr>label = (\<lambda>s b. if s = ''_'' then 0 else if s = ''x'' then 1 else 2),
      tokenMap = (\<lambda>t. if t = GEQ then opGeq else if t = GTR then OtherOp ''>''
                       else if t = SUB then OtherOp ''-'' else OtherOp ''?''),
      parse = (\<lambda>i s. external s),
      ParseQuotes = (\<lambda>a b. if a = ''?'' then Inl ''bad quotes'' else Inr (0, 1)),
      parseString = (\<lambda>i q s. external s),
      getBuiltinShorthandPkg = (\<lambda>s. None),
      predefinedRanges = (\<lambda>s. None),
      lenBuiltin = external ''len'',
      andBuiltin = external ''and'',
      orBuiltin = external ''or'',
      mkBin = (\<lambda>o' a b. binaryExpr None o' a b),
      newBound = (\<lambda>src o' k x. bound src o' k x),
      initLit = (\<lambda>src as. (external ''len'', topValue src)),
      Unquote = (\<lambda>s. if s = ''bad'' then None else Some s),
      getBuiltinPkg = (\<lambda>s. None),
      LookupImport = (\<lambda>s. None),
      importRoot = (\<lambda>n. nil),
      LabelName =
        (\<lambda>x. case x of
               BasicLit i s \<Rightarrow> (s, s \<noteq> ''-'')
             | Ident i name b sc \<Rightarrow> (name, True)
             | _ \<Rightarrow> ([], False)),
      nodeLabel = (\<lambda>x. case asBasicLit x of Some (i, s) \<Rightarrow> (3, s \<noteq> ''-'') | None \<Rightarrow> (4, True)),
      createAttrs = (\<lambda>src as. (None, nil)),
      DropOptional = False,
      insertValue = (\<lambda>f opt x at d s. s\<lparr>arcs := arcs s @ [(f, x)]\<rparr>)\<rparr>"

text \<open>The expressions \<^verbatim>\<open>-1 | 2\<close> and \<^verbatim>\<open>1 | *2 | 3\<close> (which parses as \<^verbatim>\<open>(1 | *2) | 3\<close>).\<close>

definition minusOneOrTwo :: node where
  "minusOneOrTwo = BinaryExpr 1 OR (UnaryExpr 2 SUB (BasicLit 3 ''1'')) (BasicLit 4 ''2'')"

definition oneStarTwoThree :: node where
  "oneStarTwoThree =
     BinaryExpr 1 OR (BinaryExpr 2 OR (BasicLit 3 ''1'') (UnaryExpr 4 MUL (BasicLit 5 ''2'')))
       (BasicLit 6 ''3'')"

text \<open>
  The clauses of \<^verbatim>\<open>for x in [1,2] if x > 1 { y: x }\<close>; the parser has resolved the \<^verbatim>\<open>x\<close>
  of the condition to the \<^verbatim>\<open>for\<close> clause, node 1. \<open>demoYielder\<close> is the state in which
  \<^verbatim>\<open>wrapClauses\<close> is called: the root record, and the yield made for \<^verbatim>\<open>{ y: x }\<close> at
  address 0. \<open>demoRegistered\<close> is the state after the first loop of \<^verbatim>\<open>wrapClauses\<close>,
  \<open>demoFeed\<close> and \<open>demoWrapped\<close> are the value and the state that it ends with.
\<close>

definition demoClauses :: "node list" where
  "demoClauses =
     [ForClause 1 None (2, ''x'') (ListLit 3 [BasicLit 4 ''1'', BasicLit 5 ''2''] False None),
      IfClause 6 (BinaryExpr 7 GTR (Ident 8 ''x'' (ToNode 1) None) (BasicLit 9 ''1''))]"

definition demoYielder :: astState where
  "demoYielder =
     newState None [newStruct None] []
       [\<lparr>yieldSource = Some 13, yieldOpt = False, yieldKey = nil, yieldValue = nil\<rparr>]"

definition demoRegistered :: astState where
  "demoRegistered =
     demoYielder
       \<lparr>astMap := Map.empty(1 \<mapsto> lambdaExprScope 0),
        lambdas := [\<lparr>lambdaSource = Some 3, params = [], lambdaValue = nil\<rparr>]\<rparr>"

definition demoFeed :: cvalue where
  "demoFeed =
     feed (Some 3)
       (listValue (Some 3) [(0, external ''1''), (1, external ''2'')]
          (external ''len'') (topValue (Some 3))) 0"

definition demoWrapped :: astState where
  "demoWrapped =
     demoYielder
       \<lparr>astMap := Map.empty(1 \<mapsto> lambdaExprScope 0),
        lambdas :=
          [\<lparr>lambdaSource = Some 3,
            params = [(0, basicType None (kindOr stringKind intKind)), (1, topValue None)],
            lambdaValue =
              guard (Some 7)
                (binaryExpr (Some 7) (OtherOp ''>'') (nodeRef (Some 8) (lambdaExprScope 0))
                   (external ''1''))
                (yieldRef 0)\<rparr>]\<rparr>"

text \<open>
  The whole comprehension \<^verbatim>\<open>for x in [1,2] if x > 1 { y: x }\<close>, lowered by a visitor on
  the root record in a state that holds nothing else, and the state it leaves: the yield
  with its key and value, the lambda, and the root record with the comprehension.
\<close>

definition demoComprehension :: node where
  "demoComprehension =
     ComprehensionDecl 10 11 (Ident 12 ''y'' Unresolved None) (Ident 13 ''x'' (ToNode 1) None)
       demoClauses"

definition demoBuilt :: astState where
  "demoBuilt =
     demoWrapped
       \<lparr>structs :=
          [(newStruct None)\<lparr>comprehensions := [fieldComprehension (Some 10) demoFeed False]\<rparr>],
        yields :=
          [\<lparr>yieldSource = Some 13, yieldOpt = False, yieldKey = stringLit (Some 12) ''y'',
            yieldValue = nodeRef (Some 13) (lambdaExprScope 0)\<rparr>]\<rparr>"

text \<open>
  Two files inserted into an instance whose root record is at address 0, in the state
  \<open>demoState\<close>. The only declaration of the first emits the expression \<^verbatim>\<open>*1\<close>, a
  preference mark outside a disjunction; \<open>demoLowered\<close> is the visitor's state when
  \<^verbatim>\<open>walk\<close> has returned. The second imports the package \<^verbatim>\<open>x/y\<close>, which is neither a
  builtin package nor a package of the build.
\<close>

definition demoInstance :: Instance where
  "demoInstance = \<lparr>rootStruct = 0, scope = None\<rparr>"

definition demoState :: astState where
  "demoState = fileState demoInstance 0 [newStruct None] [] []"

definition demoDecls :: "node list" where
  "demoDecls = [EmitDecl 1 (UnaryExpr 2 MUL (BasicLit 3 ''1''))]"

definition demoLowered :: astState where
  "demoLowered =
     (recorded (newVisitor 0) 2 ''preference mark not allowed at this position'' [] demoState)
       \<lparr>structs :=
          [(newStruct None)
             \<lparr>emit := failed 2 ''preference mark not allowed at this position'' []\<rparr>]\<rparr>"

definition demoImports :: "node list" where
  "demoImports = [ImportDecl 1 [ImportSpec 2 ''x/y'']]"

section \<open>Properties of the error algebra\<close>

text \<open>
  C10. Calling \<^verbatim>\<open>IsIncomplete\<close> on a nil \<^verbatim>\<open>*Bottom\<close> is defined and returns false, in
  every heap; a vertex whose value holds a nil \<^verbatim>\<open>*Bottom\<close> is not incomplete either.
\<close>

theorem IsIncomplete_nil:
  "IsIncomplete h None = False \<and> isIncomplete h (Some (v\<lparr>Value := BottomPtr None\<rparr>)) = False"
  by (simp add: IsIncomplete_def isIncomplete_def)

subsection \<open>CombineErrors only ever appends to the heap\<close>

lemma CombineErrors_heap:
  "snd (CombineErrors Append src x y h) = h
     \<or> (\<exists>b. snd (CombineErrors Append src x y h) = h @ [b])"
  by (auto simp: CombineErrors_def mergeBottoms_def alloc_def Let_def split: option.splits)

lemma CombineErrors_old_cells:
  assumes "CombineErrors Append src x y h = (ce, h1)" and "q < length h"
  shows "h1 ! q = h ! q"
  using assms CombineErrors_heap [of Append src x y h] by (auto simp: nth_append)

lemma CombineErrors_length:
  assumes "CombineErrors Append src x y h = (ce, h1)"
  shows "length h \<le> length h1"
  using assms CombineErrors_heap [of Append src x y h] by auto

subsection \<open>AddChildError with a fatal child error\<close>

lemma AddChildError_not_Bottom:
  assumes "r < length h"
    and "Code (h ! r) \<noteq> IncompleteError" and "Code (h ! r) \<noteq> CycleError"
    and "asBottom (Value v) = None"
  shows "\<exists>v' h' p. AddChildError Append v (Some r) h = Inr (v', h')
           \<and> Value v' = BottomPtr (Some p) \<and> length h \<le> p \<and> p < length h'
           \<and> h' ! p = \<lparr>Src = None, Err = Err (h ! r), Code = Code (h ! r),
                        HasRecursive = True, ChildError = True, BValue = Value v\<rparr>
           \<and> (\<forall>q<length h. h' ! q = h ! q)"
proof -
  obtain ce h1 where
    c: "CombineErrors Append None (BottomPtr (ChildErrors v)) (BottomPtr (Some r)) h = (ce, h1)"
    by (cases "CombineErrors Append None (BottomPtr (ChildErrors v)) (BottomPtr (Some r)) h")
  have r1: "h1 ! r = h ! r"
    using CombineErrors_old_cells [OF c assms(1)] .
  have old: "\<forall>q<length h. h1 ! q = h ! q"
    using CombineErrors_old_cells [OF c] by blast
  have len: "length h \<le> length h1"
    using CombineErrors_length [OF c] .
  have "\<not> IsIncomplete h1 (Some r)"
    using assms(2,3) r1 by (simp add: IsIncomplete_def)
  then show ?thesis
    using r1 old len assms(4)
    by (auto simp: AddChildError_def c Let_def alloc_def nth_append)
qed

lemma AddChildError_already_Bottom:
  assumes "r < length h"
    and "Code (h ! r) \<noteq> IncompleteError" and "Code (h ! r) \<noteq> CycleError"
    and "Value v = BottomPtr (Some e)" and "e < length h"
  shows "\<exists>v' h'. AddChildError Append v (Some r) h = Inr (v', h')
           \<and> Value v' = BottomPtr (Some e)
           \<and> h' ! e = (h ! e)\<lparr>HasRecursive := True,
                                Code := min (Code (h ! e)) (Code (h ! r))\<rparr>"
proof -
  obtain ce h1 where
    c: "CombineErrors Append None (BottomPtr (ChildErrors v)) (BottomPtr (Some r)) h = (ce, h1)"
    by (cases "CombineErrors Append None (BottomPtr (ChildErrors v)) (BottomPtr (Some r)) h")
  have r1: "h1 ! r = h ! r"
    using CombineErrors_old_cells [OF c assms(1)] .
  have e2: "h1 ! e = h ! e"
    using CombineErrors_old_cells [OF c assms(5)] .
  have e1: "e < length h1"
    using CombineErrors_length [OF c] assms(5) by simp
  have "\<not> IsIncomplete h1 (Some r)"
    using assms(2,3) r1 by (simp add: IsIncomplete_def)
  then show ?thesis
    using r1 e1 e2 assms(4)
    by (cases "e = r") (auto simp: AddChildError_def c Let_def asBottom_def min_def)
qed

lemma AddChildError_cycle_then_user:
  assumes "r1 < length h" and "r2 < length h"
    and "Code (h ! r1) = StructuralCycleError" and "Code (h ! r2) = UserError"
    and "asBottom (Value v) = None"
  shows "\<exists>v1 h1 v2 h2 p. AddChildError Append v (Some r1) h = Inr (v1, h1)
           \<and> AddChildError Append v1 (Some r2) h1 = Inr (v2, h2)
           \<and> Value v2 = BottomPtr (Some p)
           \<and> Code (h2 ! p) = UserError \<and> HasRecursive (h2 ! p)"
proof -
  have f1: "Code (h ! r1) \<noteq> IncompleteError" "Code (h ! r1) \<noteq> CycleError"
    using assms(3) by (simp_all add: ErrorCode_defs)
  obtain v1 h1 p where
    s1: "AddChildError Append v (Some r1) h = Inr (v1, h1)"
    and v1: "Value v1 = BottomPtr (Some p)" and p: "length h \<le> p" "p < length h1"
    and cell: "h1 ! p = \<lparr>Src = None, Err = Err (h ! r1), Code = Code (h ! r1),
                          HasRecursive = True, ChildError = True, BValue = Value v\<rparr>"
    and old: "\<forall>q<length h. h1 ! q = h ! q"
    using AddChildError_not_Bottom [OF assms(1) f1 assms(5), of Append] by blast
  have r2: "r2 < length h1" "h1 ! r2 = h ! r2"
    using assms(2) p old by auto
  have f2: "Code (h1 ! r2) \<noteq> IncompleteError" "Code (h1 ! r2) \<noteq> CycleError"
    using assms(4) r2 by (simp_all add: ErrorCode_defs)
  obtain v2 h2 where
    s2: "AddChildError Append v1 (Some r2) h1 = Inr (v2, h2)"
    and v2: "Value v2 = BottomPtr (Some p)"
    and cell2: "h2 ! p = (h1 ! p)\<lparr>HasRecursive := True,
                                    Code := min (Code (h1 ! p)) (Code (h1 ! r2))\<rparr>"
    using AddChildError_already_Bottom [OF r2(1) f2 v1 p(2), of Append] by blast
  have "Code (h2 ! p) = UserError \<and> HasRecursive (h2 ! p)"
    using cell cell2 r2(2) assms(3,4) by (simp add: ErrorCode_defs)
  with s1 s2 v2 show ?thesis by blast
qed

subsection \<open>The claims about the error algebra\<close>

text \<open>
  C1. When \<open>a\<close> points to a Bottom whose code is one of \<^verbatim>\<open>EvalError\<close>, \<^verbatim>\<open>UserError\<close>,
  \<^verbatim>\<open>NotExistError\<close>, \<^verbatim>\<open>StructuralCycleError\<close> and \<open>b\<close> to one whose code is
  \<^verbatim>\<open>IncompleteError\<close> or \<^verbatim>\<open>CycleError\<close>, \<^verbatim>\<open>CombineErrors\<close> returns the pointer \<open>a\<close> in
  either argument order, for any position, and leaves the heap as it was.
\<close>

theorem CombineErrors_fatal_wins:
  assumes "Code (h ! a) \<in> {EvalError, UserError, NotExistError, StructuralCycleError}"
    and "Code (h ! b) \<in> {IncompleteError, CycleError}"
  shows "CombineErrors Append pos (BottomPtr (Some a)) (BottomPtr (Some b)) h = (Some a, h)
       \<and> CombineErrors Append pos (BottomPtr (Some b)) (BottomPtr (Some a)) h = (Some a, h)"
  using assms by (auto simp: CombineErrors_def asBottom_def ErrorCode_defs)

theorem CombineErrors_fatal_wins_witness:
  "Code (demoHeap ! 1) \<in> {EvalError, UserError, NotExistError, StructuralCycleError}
   \<and> Code (demoHeap ! 2) \<in> {IncompleteError, CycleError}
   \<and> CombineErrors (@) (Some 9) (BottomPtr (Some 1)) (BottomPtr (Some 2)) demoHeap
       = (Some 1, demoHeap)
   \<and> CombineErrors (@) (Some 9) (BottomPtr (Some 2)) (BottomPtr (Some 1)) demoHeap
       = (Some 1, demoHeap)"
proof -
  have a: "Code (demoHeap ! 1) \<in> {EvalError, UserError, NotExistError, StructuralCycleError}"
    by (simp add: demoHeap_def bottomCell_def)
  have b: "Code (demoHeap ! 2) \<in> {IncompleteError, CycleError}"
    by (simp add: demoHeap_def bottomCell_def)
  show ?thesis
    using a b CombineErrors_fatal_wins [OF a b, of "(@)" "Some 9"] by simp
qed

text \<open>
  C2. For a child error \<open>r\<close> whose code is neither \<^verbatim>\<open>IncompleteError\<close> nor
  \<^verbatim>\<open>CycleError\<close>: if the vertex's value is not a Bottom, \<^verbatim>\<open>AddChildError\<close> makes it a
  newly allocated Bottom with the code and diagnostic of \<open>r\<close>, both flags set and the
  previous value stored in it, and no existing cell changes; if the value already is a
  Bottom \<open>e\<close>, the value stays \<open>e\<close> and the cell of \<open>e\<close> changes only in that
  \<^verbatim>\<open>HasRecursive\<close> is set and the code becomes the minimum of the two codes. Adding a
  \<^verbatim>\<open>StructuralCycleError\<close> and then a \<^verbatim>\<open>UserError\<close> to a vertex whose value is not a Bottom
  leaves a Bottom with code \<^verbatim>\<open>UserError\<close> and \<^verbatim>\<open>HasRecursive\<close> set.
\<close>

theorem AddChildError_fatal:
  "(r < length h \<and> Code (h ! r) \<noteq> IncompleteError \<and> Code (h ! r) \<noteq> CycleError
      \<and> asBottom (Value v) = None \<longrightarrow>
      (\<exists>v' h' p. AddChildError Append v (Some r) h = Inr (v', h')
         \<and> Value v' = BottomPtr (Some p) \<and> length h \<le> p \<and> p < length h'
         \<and> h' ! p = \<lparr>Src = None, Err = Err (h ! r), Code = Code (h ! r),
                      HasRecursive = True, ChildError = True, BValue = Value v\<rparr>
         \<and> (\<forall>q<length h. h' ! q = h ! q)))
   \<and> (r < length h \<and> Code (h ! r) \<noteq> IncompleteError \<and> Code (h ! r) \<noteq> CycleError
      \<and> Value v = BottomPtr (Some e) \<and> e < length h \<longrightarrow>
      (\<exists>v' h'. AddChildError Append v (Some r) h = Inr (v', h')
         \<and> Value v' = BottomPtr (Some e)
         \<and> h' ! e = (h ! e)\<lparr>HasRecursive := True,
                              Code := min (Code (h ! e)) (Code (h ! r))\<rparr>))
   \<and> (ra < length h \<and> rb < length h
      \<and> Code (h ! ra) = StructuralCycleError \<and> Code (h ! rb) = UserError
      \<and> asBottom (Value v) = None \<longrightarrow>
      (\<exists>v1 h1 v2 h2 p. AddChildError Append v (Some ra) h = Inr (v1, h1)
         \<and> AddChildError Append v1 (Some rb) h1 = Inr (v2, h2)
         \<and> Value v2 = BottomPtr (Some p)
         \<and> Code (h2 ! p) = UserError \<and> HasRecursive (h2 ! p)))"
  using AddChildError_not_Bottom [of r h v Append]
    AddChildError_already_Bottom [of r h v e Append]
    AddChildError_cycle_then_user [of ra h rb v Append]
  by blast

theorem AddChildError_fatal_witness:
  "(0 < length demoHeap \<and> 1 < length demoHeap
      \<and> Code (demoHeap ! 0) = StructuralCycleError \<and> Code (demoHeap ! 1) = UserError
      \<and> Code (demoHeap ! 1) \<noteq> IncompleteError \<and> Code (demoHeap ! 1) \<noteq> CycleError
      \<and> asBottom (Value \<lparr>Value = OtherValue 5, ChildErrors = None\<rparr>) = None
      \<and> Value \<lparr>Value = BottomPtr (Some 0), ChildErrors = None\<rparr> = BottomPtr (Some 0))
   \<and> (\<exists>v' h' p.
         AddChildError (@) \<lparr>Value = OtherValue 5, ChildErrors = None\<rparr> (Some 1) demoHeap
           = Inr (v', h')
         \<and> Value v' = BottomPtr (Some p) \<and> length demoHeap \<le> p \<and> p < length h'
         \<and> h' ! p = \<lparr>Src = None, Err = [''explicit error''], Code = UserError,
                      HasRecursive = True, ChildError = True, BValue = OtherValue 5\<rparr>)
   \<and> (\<exists>v' h'.
         AddChildError (@) \<lparr>Value = BottomPtr (Some 0), ChildErrors = None\<rparr> (Some 1) demoHeap
           = Inr (v', h')
         \<and> Value v' = BottomPtr (Some 0)
         \<and> h' ! 0 = \<lparr>Src = None, Err = [''structural cycle''], Code = UserError,
                      HasRecursive = True, ChildError = False, BValue = NilValue\<rparr>)
   \<and> (\<exists>v1 h1 v2 h2 p.
         AddChildError (@) \<lparr>Value = OtherValue 5, ChildErrors = None\<rparr> (Some 0) demoHeap
           = Inr (v1, h1)
         \<and> AddChildError (@) v1 (Some 1) h1 = Inr (v2, h2)
         \<and> Value v2 = BottomPtr (Some p)
         \<and> Code (h2 ! p) = UserError \<and> HasRecursive (h2 ! p))"
proof -
  have pre: "0 < length demoHeap \<and> 1 < length demoHeap
      \<and> Code (demoHeap ! 0) = StructuralCycleError \<and> Code (demoHeap ! 1) = UserError
      \<and> Code (demoHeap ! 1) \<noteq> IncompleteError \<and> Code (demoHeap ! 1) \<noteq> CycleError
      \<and> asBottom (Value \<lparr>Value = OtherValue 5, ChildErrors = None\<rparr>) = None
      \<and> Value \<lparr>Value = BottomPtr (Some 0), ChildErrors = None\<rparr> = BottomPtr (Some 0)"
    by (simp add: demoHeap_def bottomCell_def asBottom_def ErrorCode_defs)
  have cells: "Err (demoHeap ! 1) = [''explicit error'']"
    "(demoHeap ! 0)\<lparr>HasRecursive := True,
         Code := min (Code (demoHeap ! 0)) (Code (demoHeap ! 1))\<rparr>
       = \<lparr>Src = None, Err = [''structural cycle''], Code = UserError,
          HasRecursive = True, ChildError = False, BValue = NilValue\<rparr>"
    by (simp_all add: demoHeap_def bottomCell_def ErrorCode_defs)
  have fresh: "\<exists>v' h' p.
         AddChildError (@) \<lparr>Value = OtherValue 5, ChildErrors = None\<rparr> (Some 1) demoHeap
           = Inr (v', h')
         \<and> Value v' = BottomPtr (Some p) \<and> length demoHeap \<le> p \<and> p < length h'
         \<and> h' ! p = \<lparr>Src = None, Err = [''explicit error''], Code = UserError,
                      HasRecursive = True, ChildError = True, BValue = OtherValue 5\<rparr>"
    using pre cells
      AddChildError_fatal [where r = 1 and h = demoHeap and Append = "(@)"
        and v = "\<lparr>Value = OtherValue 5, ChildErrors = None\<rparr>", THEN conjunct1, THEN mp]
    by fastforce
  have existing: "\<exists>v' h'.
         AddChildError (@) \<lparr>Value = BottomPtr (Some 0), ChildErrors = None\<rparr> (Some 1) demoHeap
           = Inr (v', h')
         \<and> Value v' = BottomPtr (Some 0)
         \<and> h' ! 0 = \<lparr>Src = None, Err = [''structural cycle''], Code = UserError,
                      HasRecursive = True, ChildError = False, BValue = NilValue\<rparr>"
    using pre cells
      AddChildError_fatal [where r = 1 and h = demoHeap and Append = "(@)" and e = 0
        and v = "\<lparr>Value = BottomPtr (Some 0), ChildErrors = None\<rparr>",
        THEN conjunct2, THEN conjunct1, THEN mp]
    by fastforce
  have twice: "\<exists>v1 h1 v2 h2 p.
         AddChildError (@) \<lparr>Value = OtherValue 5, ChildErrors = None\<rparr> (Some 0) demoHeap
           = Inr (v1, h1)
         \<and> AddChildError (@) v1 (Some 1) h1 = Inr (v2, h2)
         \<and> Value v2 = BottomPtr (Some p)
         \<and> Code (h2 ! p) = UserError \<and> HasRecursive (h2 ! p)"
    using pre
      AddChildError_fatal [where ra = 0 and rb = 1 and h = demoHeap and Append = "(@)"
        and v = "\<lparr>Value = OtherValue 5, ChildErrors = None\<rparr>",
        THEN conjunct2, THEN conjunct2, THEN mp]
    by fastforce
  from pre fresh existing twice show ?thesis by blast
qed

text \<open>
  C3. For a child error \<open>r\<close> whose code is \<^verbatim>\<open>IncompleteError\<close> or \<^verbatim>\<open>CycleError\<close>,
  \<^verbatim>\<open>AddChildError\<close> changes the vertex only in that \<^verbatim>\<open>ChildErrors\<close> becomes the result of
  \<^verbatim>\<open>CombineErrors(nil, v.ChildErrors, r)\<close>; the value of the vertex stays, and so does
  every cell that was in the heap. For every child error \<open>r\<close>, whatever its code, the call
  returns and \<^verbatim>\<open>ChildErrors\<close> is that result of \<^verbatim>\<open>CombineErrors\<close>.
\<close>

theorem AddChildError_incomplete:
  assumes "r < length h"
  shows "(Code (h ! r) = IncompleteError \<or> Code (h ! r) = CycleError \<longrightarrow>
            AddChildError Append v (Some r) h =
              Inr (v\<lparr>ChildErrors :=
                       fst (CombineErrors Append None (BottomPtr (ChildErrors v))
                              (BottomPtr (Some r)) h)\<rparr>,
                   snd (CombineErrors Append None (BottomPtr (ChildErrors v))
                          (BottomPtr (Some r)) h))
            \<and> (\<forall>q<length h.
                  snd (CombineErrors Append None (BottomPtr (ChildErrors v))
                         (BottomPtr (Some r)) h) ! q = h ! q))
       \<and> (\<exists>v' h'. AddChildError Append v (Some r) h = Inr (v', h')
             \<and> ChildErrors v' =
                 fst (CombineErrors Append None (BottomPtr (ChildErrors v))
                        (BottomPtr (Some r)) h))"
proof -
  obtain ce h1 where
    c: "CombineErrors Append None (BottomPtr (ChildErrors v)) (BottomPtr (Some r)) h = (ce, h1)"
    by (cases "CombineErrors Append None (BottomPtr (ChildErrors v)) (BottomPtr (Some r)) h")
  have r1: "h1 ! r = h ! r"
    using CombineErrors_old_cells [OF c assms] .
  have old: "\<forall>q<length h. h1 ! q = h ! q"
    using CombineErrors_old_cells [OF c] by blast
  show ?thesis
    using r1 old
    by (auto simp: AddChildError_def c IsIncomplete_def Let_def alloc_def
             split: option.splits)
qed

theorem AddChildError_incomplete_witness:
  "2 < length demoHeap
   \<and> (Code (demoHeap ! 2) = IncompleteError \<or> Code (demoHeap ! 2) = CycleError)
   \<and> AddChildError (@) \<lparr>Value = OtherValue 5, ChildErrors = Some 1\<rparr> (Some 2) demoHeap
       = Inr (\<lparr>Value = OtherValue 5, ChildErrors = Some 1\<rparr>, demoHeap)
   \<and> CombineErrors (@) None (BottomPtr (Some 1)) (BottomPtr (Some 2)) demoHeap
       = (Some 1, demoHeap)"
proof -
  have len: "2 < length demoHeap"
    by (simp add: demoHeap_def)
  have code: "Code (demoHeap ! 2) = IncompleteError \<or> Code (demoHeap ! 2) = CycleError"
    by (simp add: demoHeap_def bottomCell_def)
  have comb: "CombineErrors (@) None (BottomPtr (Some 1)) (BottomPtr (Some 2)) demoHeap
       = (Some 1, demoHeap)"
    by (simp add: CombineErrors_def asBottom_def demoHeap_def bottomCell_def ErrorCode_defs)
  show ?thesis
    using len code comb
      AddChildError_incomplete [OF len, of "(@)" "\<lparr>Value = OtherValue 5, ChildErrors = Some 1\<rparr>"]
    by simp
qed

text \<open>
  C4. When both arguments are Bottoms with the same code, one of \<^verbatim>\<open>EvalError\<close>,
  \<^verbatim>\<open>UserError\<close>, \<^verbatim>\<open>NotExistError\<close>, \<^verbatim>\<open>StructuralCycleError\<close>, \<^verbatim>\<open>CombineErrors\<close> allocates a
  new Bottom whose source is \<open>pos\<close>, whose code is the code of \<open>a\<close> and whose diagnostic
  is \<^verbatim>\<open>errors.Append(a.Err, b.Err)\<close>, the diagnostic of \<open>a\<close> first. When neither argument
  is a Bottom the result is nil, and when exactly one is, that pointer is returned and the
  heap is as it was.
\<close>

theorem CombineErrors_merge:
  "(Code (h ! a) \<in> {EvalError, UserError, NotExistError, StructuralCycleError}
      \<and> Code (h ! b) = Code (h ! a) \<longrightarrow>
    CombineErrors Append pos (BottomPtr (Some a)) (BottomPtr (Some b)) h =
      (Some (length h),
       h @ [\<lparr>Src = pos, Err = Append (Err (h ! a)) (Err (h ! b)), Code = Code (h ! a),
              HasRecursive = False, ChildError = False, BValue = NilValue\<rparr>]))
   \<and> (asBottom x = None \<and> asBottom y = None \<longrightarrow>
        CombineErrors Append pos x y h = (None, h))
   \<and> (asBottom x = Some p \<and> asBottom y = None \<longrightarrow>
        CombineErrors Append pos x y h = (Some p, h))
   \<and> (asBottom x = None \<and> asBottom y = Some p \<longrightarrow>
        CombineErrors Append pos x y h = (Some p, h))"
  by (simp add: CombineErrors_def mergeBottoms_def alloc_def asBottom_def)

theorem CombineErrors_merge_witness:
  "(Code (demoHeap ! 1) \<in> {EvalError, UserError, NotExistError, StructuralCycleError}
      \<and> Code (demoHeap ! 3) = Code (demoHeap ! 1))
   \<and> CombineErrors (@) (Some 9) (BottomPtr (Some 1)) (BottomPtr (Some 3)) demoHeap =
      (Some 4,
       demoHeap @ [\<lparr>Src = Some 9, Err = [''explicit error'', ''second error''],
                     Code = UserError,
                     HasRecursive = False, ChildError = False, BValue = NilValue\<rparr>])
   \<and> (asBottom (OtherValue 5) = None \<and> asBottom (BottomPtr None) = None)
   \<and> CombineErrors (@) (Some 9) (OtherValue 5) (BottomPtr None) demoHeap = (None, demoHeap)
   \<and> (asBottom (BottomPtr (Some 2)) = Some 2 \<and> asBottom NilValue = None)
   \<and> CombineErrors (@) (Some 9) (BottomPtr (Some 2)) NilValue demoHeap = (Some 2, demoHeap)
   \<and> CombineErrors (@) (Some 9) NilValue (BottomPtr (Some 2)) demoHeap = (Some 2, demoHeap)"
proof -
  have pre: "Code (demoHeap ! 1) \<in> {EvalError, UserError, NotExistError, StructuralCycleError}
      \<and> Code (demoHeap ! 3) = Code (demoHeap ! 1)"
    by (simp add: demoHeap_def bottomCell_def)
  have cells: "Err (demoHeap ! 1) = [''explicit error'']" "Err (demoHeap ! 3) = [''second error'']"
    "Code (demoHeap ! 1) = UserError" "length demoHeap = 4"
    by (simp_all add: demoHeap_def bottomCell_def)
  have as: "asBottom (OtherValue 5) = None" "asBottom (BottomPtr None) = None"
    "asBottom (BottomPtr (Some 2)) = Some 2" "asBottom NilValue = None"
    by (simp_all add: asBottom_def)
  show ?thesis
    using pre cells as
      CombineErrors_merge [of demoHeap 1 3 "(@)" "Some 9" "OtherValue 5" "BottomPtr None" 0]
      CombineErrors_merge [of demoHeap 1 3 "(@)" "Some 9" "BottomPtr (Some 2)" NilValue 2]
      CombineErrors_merge [of demoHeap 1 3 "(@)" "Some 9" NilValue "BottomPtr (Some 2)" 2]
    by simp
qed

text \<open>
  C8. \<^verbatim>\<open>isIncomplete\<close> is true exactly when the vertex is nil or its value is a Bottom
  whose code is \<^verbatim>\<open>IncompleteError\<close> or \<^verbatim>\<open>CycleError\<close>; so it is false for a Bottom of
  any other code, for a nil \<^verbatim>\<open>*Bottom\<close> and for every value that is not a Bottom.
\<close>

theorem isIncomplete_iff:
  "isIncomplete h v =
     (v = None \<or> (\<exists>vx p. v = Some vx \<and> Value vx = BottomPtr (Some p)
                    \<and> (Code (h ! p) = IncompleteError \<or> Code (h ! p) = CycleError)))"
  by (auto simp: isIncomplete_def IsIncomplete_def split: option.splits Value.splits)

section \<open>Properties of the syntax-tree builder\<close>

subsection \<open>Disjunctions\<close>

lemma walkBranches_append:
  "walkBranches E v (bs @ cs) st =
     (case walkBranches E v bs st of
        Inl p \<Rightarrow> Inl p
      | Inr (vs, v1, st1) \<Rightarrow>
          (case walkBranches E v1 cs st1 of
             Inl p \<Rightarrow> Inl p
           | Inr (ws, v2, st2) \<Rightarrow> Inr (vs @ ws, v2, st2)))"
  by (induction bs arbitrary: v st) (auto split: sum.splits)

lemma addDisjunctionElem_branches:
  "addDisjunctionElem E v d x mark st =
     (case walkBranches E v (branches mark x) st of
        Inl p \<Rightarrow> Inl p
      | Inr (vs, v1, st1) \<Rightarrow>
          Inr (d\<lparr>dvalues := dvalues d @ vs,
                 hasDefaults := hasDefaults d \<or> unaryBranch x\<rparr>, v1, st1))"
proof (induction mark x arbitrary: d v st rule: branches.induct)
  case (1 mark i tk x y)
  then show ?case
    by (subst addDisjunctionElem.simps)
       (simp add: walkBranches_append split: sum.splits)
qed (subst addDisjunctionElem.simps, simp split: sum.splits)+

lemma walk_disjunction:
  "walk E v (BinaryExpr i OR x y) st =
     (case walkBranches E v (branches False x @ branches False y) st of
        Inl p \<Rightarrow> Inl p
      | Inr (vs, v1, st1) \<Rightarrow>
          Inr (disjunction (Some i) vs (unaryBranch x \<or> unaryBranch y), v1, st1))"
  by (simp add: walk.simps addDisjunctionElem_branches walkBranches_append split: sum.splits)

lemma starBranch_unaryBranch: "starBranch x \<Longrightarrow> unaryBranch x"
  by (induction x rule: starBranch.induct) auto

subsection \<open>The frame of lowering\<close>

lemma frameX_refl [simp]: "frameX T st st"
  by (simp add: frameX_def)

lemma frameX_mono: "frameX T st st' \<Longrightarrow> T \<subseteq> T' \<Longrightarrow> frameX T' st st'"
  by (auto simp: frameX_def)

lemma frameX_trans:
  assumes "frameX T st st1" and "frameX T' st1 st2"
    and "\<And>fn. fn < length (lambdas st) \<Longrightarrow> fn \<in> T' \<Longrightarrow> fn \<in> T"
  shows "frameX T st st2"
proof -
  have a: "\<forall>nd s. astMap st nd = Some s \<longrightarrow> astMap st2 nd = Some s"
    using assms(1,2) by (simp add: frameX_def)
  have b: "\<forall>nd fn. astMap st nd = None \<longrightarrow> astMap st2 nd = Some (lambdaExprScope fn)
            \<longrightarrow> length (lambdas st) \<le> fn"
  proof (intro allI impI)
    fix nd fn assume n: "astMap st nd = None" and s: "astMap st2 nd = Some (lambdaExprScope fn)"
    show "length (lambdas st) \<le> fn"
    proof (cases "astMap st1 nd")
      case None
      then have "length (lambdas st1) \<le> fn" using assms(2) s by (simp add: frameX_def)
      moreover have "length (lambdas st) \<le> length (lambdas st1)"
        using assms(1) by (simp add: frameX_def)
      ultimately show ?thesis by simp
    next
      case (Some s1)
      then have "astMap st2 nd = Some s1" using assms(2) by (simp add: frameX_def)
      then have "s1 = lambdaExprScope fn" using s by simp
      then show ?thesis using assms(1) n Some by (simp add: frameX_def)
    qed
  qed
  have c: "length (lambdas st) \<le> length (lambdas st2)"
    using assms(1,2) by (simp add: frameX_def)
  have d: "\<forall>fn<length (lambdas st). fn \<notin> T \<longrightarrow> lambdas st2 ! fn = lambdas st ! fn"
  proof (intro allI impI)
    fix fn assume l: "fn < length (lambdas st)" and t: "fn \<notin> T"
    then have 1: "lambdas st1 ! fn = lambdas st ! fn" and 2: "fn < length (lambdas st1)"
      using assms(1) by (auto simp: frameX_def)
    have "fn \<notin> T'" using assms(3) l t by blast
    then have "lambdas st2 ! fn = lambdas st1 ! fn"
      using assms(2) 2 by (simp add: frameX_def)
    then show "lambdas st2 ! fn = lambdas st ! fn" using 1 by simp
  qed
  have e: "prefix (errors st) (errors st2)"
    using assms(1,2) unfolding frameX_def by (meson prefix_order.trans)
  from a b c d e show ?thesis by (simp add: frameX_def)
qed

lemma frame_trans: "frame st st1 \<Longrightarrow> frame st1 st2 \<Longrightarrow> frame st st2"
  by (rule frameX_trans) auto

lemma frame_errf: "errf v nd format args st = (b, st') \<Longrightarrow> frame st st'"
  by (auto simp: frameX_def errf_def)

lemma frame_mapScope: "mapScope nd st = (s, st') \<Longrightarrow> frame st st'"
  by (auto simp: mapScope_def frameX_def split: option.splits if_splits)

lemma frame_identValue: "identValue E v i name st = (x, st') \<Longrightarrow> frame st st'"
  by (auto simp: identValue_def split: if_splits option.splits dest: frame_errf)

lemma frameX_structs_update [simp]: "frameX T st (st'\<lparr>structs := ss\<rparr>) = frameX T st st'"
  by (simp add: frameX_def)

lemma frameX_yields_update [simp]: "frameX T st (st'\<lparr>yields := ys\<rparr>) = frameX T st st'"
  by (simp add: frameX_def)

lemma frameX_structs_update2 [simp]: "frameX T (st\<lparr>structs := ss\<rparr>) st' = frameX T st st'"
  by (simp add: frameX_def)

lemma frameX_yields_update2 [simp]: "frameX T (st\<lparr>yields := ys\<rparr>) st' = frameX T st st'"
  by (simp add: frameX_def)

lemma frame_setScope:
  "setScope nd sc st = Inr st' \<Longrightarrow> astMap st nd = None \<or> astMap st nd = Some sc"
  by (auto simp: setScope_def split: option.splits if_splits)

lemma setScope_Inr:
  "setScope nd sc st = Inr st' \<Longrightarrow> st' = st\<lparr>astMap := (astMap st)(nd \<mapsto> sc)\<rparr>"
  by (auto simp: setScope_def split: option.splits if_splits)

lemma frame_registerFors: "registerFors cs st = Inr st' \<Longrightarrow> frame st st'"
proof (induction cs arbitrary: st)
  case Nil
  then show ?case by simp
next
  case (Cons c cs)
  show ?case
  proof (cases "asForClause c")
    case None
    then show ?thesis using Cons by simp
  next
    case (Some t)
    obtain ci k val src where t: "t = (ci, k, val, src)" by (cases t)
    let ?st0 = "st\<lparr>lambdas := lambdas st @
                        [\<lparr>lambdaSource = newExpr src, params = [], lambdaValue = nil\<rparr>]\<rparr>"
    obtain st1 where s: "setScope ci (lambdaExprScope (length (lambdas st))) ?st0 = Inr st1"
      and r: "registerFors cs st1 = Inr st'"
      using Cons.prems Some t by (auto split: sum.splits)
    have st1: "st1 = ?st0\<lparr>astMap := (astMap ?st0)(ci \<mapsto> lambdaExprScope (length (lambdas st)))\<rparr>"
      using setScope_Inr [OF s] .
    have pre: "astMap st ci = None \<or> astMap st ci = Some (lambdaExprScope (length (lambdas st)))"
      using frame_setScope [OF s] by simp
    have "frame st st1"
      using pre by (auto simp: st1 frameX_def nth_append)
    then show ?thesis
      using Cons.IH [OF r] frame_trans by blast
  qed
qed

lemma registerFors_fresh:
  "registerFors cs st = Inr st' \<Longrightarrow> fn \<in> targets st' cs \<Longrightarrow> length (lambdas st) \<le> fn"
proof (induction cs arbitrary: st)
  case Nil
  then show ?case by (simp add: targets_def)
next
  case (Cons c cs)
  show ?case
  proof (cases "asForClause c")
    case None
    then have "registerFors cs st = Inr st'" and "fn \<in> targets st' cs"
      using Cons.prems by (auto simp: targets_def)
    then show ?thesis using Cons.IH by blast
  next
    case (Some t)
    obtain ci k val src where t: "t = (ci, k, val, src)" by (cases t)
    let ?st0 = "st\<lparr>lambdas := lambdas st @
                        [\<lparr>lambdaSource = newExpr src, params = [], lambdaValue = nil\<rparr>]\<rparr>"
    obtain st1 where s: "setScope ci (lambdaExprScope (length (lambdas st))) ?st0 = Inr st1"
      and r: "registerFors cs st1 = Inr st'"
      using Cons.prems(1) Some t by (auto split: sum.splits)
    have st1: "st1 = ?st0\<lparr>astMap := (astMap ?st0)(ci \<mapsto> lambdaExprScope (length (lambdas st)))\<rparr>"
      using setScope_Inr [OF s] .
    have len: "length (lambdas st1) = Suc (length (lambdas st))"
      by (simp add: st1)
    have ci: "astMap st' ci = Some (lambdaExprScope (length (lambdas st)))"
      using frame_registerFors [OF r] by (simp add: st1 frameX_def)
    from Cons.prems(2) consider "fn \<in> targets st' cs" | "fn = length (lambdas st)"
      using Some t ci unfolding targets_def by force
    then show ?thesis
    proof cases
      case 1
      then show ?thesis using Cons.IH [OF r] len by simp
    next
      case 2
      then show ?thesis by simp
    qed
  qed
qed

lemma ok_Inl [simp]: "ok T st (Inl p)"
  by (simp add: ok_def)

lemma ok_Inr [simp]: "ok T st (Inr (r, v, st')) = frameX T st st'"
  by (simp add: ok_def)

lemma ok_bind:
  assumes "ok {} st m"
    and "\<And>r v1 st1. m = Inr (r, v1, st1) \<Longrightarrow> ok {} st1 (f r v1 st1)"
  shows "ok {} st (case m of Inl p \<Rightarrow> Inl p | Inr (r, v1, st1) \<Rightarrow> f r v1 st1)"
proof (cases m)
  case (Inl p)
  then show ?thesis by simp
next
  case (Inr t)
  obtain r v1 st1 where t: "t = (r, v1, st1)" by (cases t)
  have 1: "frame st st1" using assms(1) Inr t by simp
  have 2: "ok {} st1 (f r v1 st1)" using assms(2) Inr t by simp
  show ?thesis
  proof (cases "f r v1 st1")
    case (Inl p)
    then show ?thesis using Inr t by simp
  next
    case (Inr u)
    obtain r' v2 st2 where u: "u = (r', v2, st2)" by (cases u)
    have "frame st1 st2" using 2 Inr u by simp
    then have "frame st st2" using 1 frame_trans by blast
    then show ?thesis using Inr u \<open>m = Inr t\<close> t by simp
  qed
qed

lemma ok_errf [simp]:
  "ok {} st (case errf v nd format args st of (b, st1) \<Rightarrow> Inr (g b, v', st1))"
  by (cases "errf v nd format args st") (auto dest: frame_errf)

lemma ok_identValue [simp]:
  "ok {} st (case identValue E v i name st of (x, st1) \<Rightarrow> Inr (x, v', st1))"
  by (cases "identValue E v i name st") (auto dest: frame_identValue)

lemma ok_mapScope [simp]:
  "ok {} st (case mapScope nd st of (n2, st1) \<Rightarrow> Inr (g n2, v', st1))"
  by (cases "mapScope nd st") (auto dest: frame_mapScope)

lemma ok_structs_pre [simp]: "ok T (st\<lparr>structs := ss\<rparr>) m = ok T st m"
  by (simp add: ok_def split: sum.splits)

lemma ok_yields_pre [simp]: "ok T (st\<lparr>yields := ys\<rparr>) m = ok T st m"
  by (simp add: ok_def split: sum.splits)

lemma frameX_post_updates [simp]:
  "frameX T st (addComprehension obj fc st') = frameX T st st'"
  "frameX T st (addTemplate E obj t st') = frameX T st st'"
  "frameX T st (setKey y k st') = frameX T st st'"
  "frameX T st (setYield y x st') = frameX T st st'"
  "frameX T st (setOpt y opt st') = frameX T st st'"
  "frameX T st (newYield src st') = frameX T st st'"
  by (simp_all add: frameX_def addComprehension_def addTemplate_def setKey_def setYield_def
        setOpt_def newYield_def)

lemma frameX_pre_updates [simp]:
  "frameX T (setKey y k st) st' = frameX T st st'"
  "frameX T (setYield y x st) st' = frameX T st st'"
  "frameX T (newYield src st) st' = frameX T st st'"
  by (simp_all add: frameX_def setKey_def setYield_def newYield_def)

lemma ok_pre_updates [simp]:
  "ok T (setKey y k st) m = ok T st m"
  "ok T (setYield y x st) m = ok T st m"
  "ok T (newYield src st) m = ok T st m"
  by (simp_all add: ok_def frameX_def setKey_def setYield_def newYield_def split: sum.splits)

lemma frame_newLambda:
  assumes "setScope nd (lambdaExprScope (length (lambdas st))) (newLambda src ps st) = Inr st1"
  shows "frame st st1"
proof -
  have st1: "st1 = (newLambda src ps st)
                \<lparr>astMap := (astMap st)(nd \<mapsto> lambdaExprScope (length (lambdas st)))\<rparr>"
    using setScope_Inr [OF assms] by (simp add: newLambda_def)
  have "astMap st nd = None \<or> astMap st nd = Some (lambdaExprScope (length (lambdas st)))"
    using frame_setScope [OF assms] by (simp add: newLambda_def)
  then show ?thesis
    by (auto simp: st1 frameX_def newLambda_def nth_append)
qed

lemma frame_setLambdaValue:
  assumes "frameX T st st'" and "length (lambdas st) \<le> fn"
  shows "frameX T st (setLambdaValue fn x st')"
  using assms by (auto simp: frameX_def setLambdaValue_def)

lemma frame_setScope_struct:
  assumes "setScope nd (structLitScope a) st = Inr st1"
  shows "frame st st1"
  using frame_setScope [OF assms] setScope_Inr [OF assms] by (auto simp: frameX_def)

lemma frame_loadImport: "loadImport E v i path st = (val, st') \<Longrightarrow> frame st st'"
  by (auto simp: loadImport_def split: option.splits dest: frame_errf)

lemma frame_walk_ok:
  shows "ok {} st (walk E v x st)"
    and "ok {} st (walkDecls E v ds st)"
    and "ok {} st (walkSpecs E v ss st)"
    and "ok {} st (walkFields E v es st)"
    and "ok {} st (walkElts E v i xs as st)"
    and "ok {} st (walkArgs E v xs avs st)"
    and "ok {} st (walkParts E v ni info pre pl xs parts st)"
    and "ok {} st (walkOpt E v xo st)"
    and "ok {} st (addDisjunctionElem E v d x mark st)"
    and "ok {} st (wrapClauses E v y cs st)"
    and "ok (targets st cs) st (wrapLoop E v y cs st)"
proof (induction E v x st and E v ds st and E v ss st and E v es st and E v i xs as st
        and E v xs avs st and E v ni info pre pl xs parts st and E v xo st
        and E v d x mark st and E v y cs st and E v y cs st
       rule: walk_walkDecls_walkSpecs_walkFields_walkElts_walkArgs_walkParts_walkOpt_addDisjunctionElem_wrapClauses_wrapLoop.induct)
  case (3 E v i path st)
  obtain val st1 where l: "loadImport E v i path st = (val, st1)"
    by (cases "loadImport E v i path st")
  have f1: "frame st st1"
    using frame_loadImport [OF l] .
  show ?case
  proof (cases "asStructLit val")
    case None
    then show ?thesis using l f1 by (simp add: walk.simps)
  next
    case (Some a)
    show ?thesis
    proof (cases "setScope i (structLitScope a) st1")
      case (Inl p)
      then show ?thesis using l f1 Some by (simp add: walk.simps)
    next
      case (Inr st2)
      have "frame st st2"
        using frame_trans [OF f1 frame_setScope_struct [OF Inr]] .
      then show ?thesis using l f1 Some Inr by (simp add: walk.simps)
    qed
  qed
next
  case (4 E v i elts lbrace st)
  obtain m st1 where ms: "mapScope i st = (m, st1)"
    by (cases "mapScope i st")
  have f1: "frame st st1"
    using frame_mapScope [OF ms] .
  show ?case
  proof (cases m)
    case (lambdaExprScope fn)
    then show ?thesis using ms by (simp add: walk.simps)
  next
    case (structLitScope obj)
    let ?v1 = "structVisitor v obj elts lbrace"
    have w: "ok {} st1 (walkFields E ?v1 elts st1)"
      using "4.IH" [OF ms [symmetric] structLitScope] .
    show ?thesis
    proof (cases "walkFields E ?v1 elts st1")
      case (Inl p)
      then show ?thesis using ms structLitScope by (simp add: walk.simps)
    next
      case (Inr t)
      obtain bo v1 st2 where t: "t = (bo, v1, st2)" by (cases t)
      have "frame st1 st2" using w Inr t by simp
      then have "frame st st2" using f1 frame_trans by blast
      then show ?thesis
        using ms structLitScope Inr t by (cases bo) (simp_all add: walk.simps)
    qed
  qed
next
  case (5 E v i fi lab val clauses st)
  let ?y = "length (yields st)"
  show ?case
  proof (cases "wrapClauses E v (yieldRef ?y) clauses (newYield (newExpr val) st)")
    case (Inl p)
    then show ?thesis by (simp add: walk.simps)
  next
    case (Inr t)
    obtain cl v1 st1 where t: "t = (cl, v1, st1)" by (cases t)
    have wc: "wrapClauses E v (yieldRef ?y) clauses (newYield (newExpr val) st)
                = Inr (cl, v1, st1)"
      using Inr t by simp
    have f1: "frame st st1"
      using "5.IH"(1) wc by simp
    have rest: "ok {} st1 r \<Longrightarrow> ok {} st r" for r :: "cvalue result"
      using f1 frame_trans by (auto simp: ok_def split: sum.splits)
    show ?thesis
    proof (cases "isInterpolation lab")
      case True
      have "ok {} st1
              (case walk E (v1\<lparr>sel := ''?''\<rparr>) lab st1 of
                 Inl p \<Rightarrow> Inl p
               | Inr (k, v2, st2) \<Rightarrow>
                   (case walk E v2 val (setKey ?y k st2) of
                      Inl p \<Rightarrow> Inl p
                    | Inr (x, v3, st3) \<Rightarrow>
                        Inr (nil, v3,
                             addComprehension (object v3) (fieldComprehension (Some i) cl False)
                               (setYield ?y x st3))))"
        using "5.IH"(2) [OF wc refl refl True] "5.IH"(3) [OF wc refl refl True]
        by (simp add: ok_bind)
      then show ?thesis
        using wc True rest by (simp add: walk.simps)
    next
      case False
      show ?thesis
      proof (cases "asTemplateLabel lab")
        case (Some name)
        let ?fn = "length (lambdas st1)"
        let ?st = "newLambda (newExpr val)
                     [(label E name True, basicType (newExpr lab) stringKind)] st1"
        show ?thesis
        proof (cases "setScope fi (lambdaExprScope ?fn) ?st")
          case (Inl p)
          then show ?thesis using wc False Some by (simp add: walk.simps)
        next
          case s: (Inr st2)
          have f2: "frame st1 st2"
            using frame_newLambda [OF s] .
          have w: "ok {} st2 (walk E (v1\<lparr>sel := ''*''\<rparr>) val st2)"
            using "5.IH"(5) [OF wc refl refl False Some s] .
          show ?thesis
          proof (cases "walk E (v1\<lparr>sel := ''*''\<rparr>) val st2")
            case (Inl p)
            then show ?thesis using wc False Some s by (simp add: walk.simps)
          next
            case wr: (Inr u)
            obtain x v2 st3 where u: "u = (x, v2, st3)" by (cases u)
            have "frame st2 st3" using w wr u by simp
            then have "frame st1 st3" using f2 frame_trans by blast
            then have "frame st1 (setLambdaValue ?fn x st3)"
              by (rule frame_setLambdaValue) simp
            then have "frame st (setLambdaValue ?fn x st3)"
              using f1 frame_trans by blast
            then show ?thesis
              using wc False Some s wr u by (simp add: walk.simps)
          qed
        qed
      next
        case None
        have "ok {} st1
                (if \<not> snd (LabelName E lab) then
                   (case errf v1 (nodeId lab) ''invalid field name: %v''
                           [NodeArg (nodeId lab)] st1 of
                      (b, st2) \<Rightarrow> Inr (b, v1, st2))
                 else if fst (LabelName E lab) \<noteq> [] then
                   (case walk E (v1\<lparr>sel := fst (LabelName E lab)\<rparr>) val
                           (setKey ?y (stringLit (newExpr lab) (fst (LabelName E lab))) st1) of
                      Inl p \<Rightarrow> Inl p
                    | Inr (x, v2, st2) \<Rightarrow>
                        Inr (nil, v2,
                             addComprehension (object v2)
                               (fieldComprehension (Some i) cl False)
                               (setYield ?y x st2)))
                 else
                   Inr (nil, v1\<lparr>sel := fst (LabelName E lab)\<rparr>,
                        addComprehension (object v1) (fieldComprehension (Some i) cl False)
                          st1))"
          if "isNameLabel lab"
          using "5.IH"(4) [OF wc refl refl False None that] by (simp add: ok_bind)
        then show ?thesis
          using wc False None rest by (simp add: walk.simps)
      qed
    qed
  qed
next
  case (6 E v i lab val opt attrs comments st)
  show ?case
  proof (cases "isInterpolation lab")
    case True
    then show ?thesis
      using "6.IH"(1,2) by (simp add: walk.simps ok_bind)
  next
    case False
    show ?thesis
    proof (cases "asTemplateLabel lab")
      case (Some name)
      let ?fn = "length (lambdas st)"
      let ?st = "newLambda (Some i) [(label E name True, basicType (newExpr lab) stringKind)] st"
      show ?thesis
      proof (cases "setScope i (lambdaExprScope ?fn) ?st")
        case (Inl p)
        then show ?thesis using False Some by (simp add: walk.simps)
      next
        case s: (Inr st1)
        have f1: "frame st st1"
          using frame_newLambda [OF s] .
        have w: "ok {} st1 (walk E (v\<lparr>sel := ''*''\<rparr>) val st1)"
          using "6.IH"(4) [OF False Some s] .
        show ?thesis
        proof (cases "walk E (v\<lparr>sel := ''*''\<rparr>) val st1")
          case (Inl p)
          then show ?thesis using False Some s by (simp add: walk.simps)
        next
          case wr: (Inr u)
          obtain x v1 st2 where u: "u = (x, v1, st2)" by (cases u)
          have "frame st1 st2" using w wr u by simp
          then have "frame st st2" using f1 frame_trans by blast
          then have "frame st (setLambdaValue ?fn x st2)"
            by (rule frame_setLambdaValue) simp
          then show ?thesis
            using False Some s wr u by (simp add: walk.simps)
        qed
      qed
    next
      case None
      then show ?thesis
        using False "6.IH"(3) by (simp add: walk.simps ok_bind)
    qed
  qed
next
  case (37 E v1 e es st)
  then show ?case
    by (simp add: walkFields.simps ok_bind split: option.splits)
next
  case (24 E v i x y zs st)
  show ?case
  proof (cases "asBasicLit x")
    case None
    then show ?thesis by (simp add: walk.simps)
  next
    case l0: (Some l0)
    show ?thesis
    proof (cases "asBasicLit (last (y # zs))")
      case None
      then show ?thesis using l0 by (simp add: walk.simps del: last.simps)
    next
      case l1: (Some l1)
      show ?thesis
      proof (cases "ParseQuotes E (snd l0) (snd l1)")
        case (Inl err)
        then show ?thesis using l0 l1 by (simp add: walk.simps del: last.simps)
      next
        case (Inr q)
        obtain info pl where q: "q = (info, pl)" by (cases q)
        have p1: "(Some l0, Some l1) = (asBasicLit x, asBasicLit (last (y # zs)))"
          by (simp only: l0 l1)
        have p4: "ParseQuotes E (snd l0) (snd l1) = Inr (info, pl)"
          using Inr q by simp
        have "ok {} st (walkParts E v i info [] pl (x # y # zs) [] st)"
          using "24.IH" [OF p1 refl refl p4 refl] .
        then show ?thesis
          by (auto simp: walk.simps l0 l1 p4 ok_def simp del: last.simps split: sum.splits)
      qed
    qed
  qed
next
  case (43)
  then show ?case
    by (simp add: walkParts.simps ok_bind split: option.splits list.splits prod.splits)
next
  case (46 E v d nd mark st)
  then show ?case
    by (subst addDisjunctionElem.simps) (simp add: ok_bind split: option.splits prod.splits)
next
  case (47 E v y clauses st)
  show ?case
  proof (cases "registerFors clauses st")
    case (Inl p)
    then show ?thesis by (simp add: wrapClauses.simps)
  next
    case (Inr st1)
    have f1: "frame st st1"
      using frame_registerFors [OF Inr] .
    have l: "ok (targets st1 clauses) st1 (wrapLoop E v y clauses st1)"
      using "47.IH" [OF Inr] .
    show ?thesis
    proof (cases "wrapLoop E v y clauses st1")
      case (Inl p)
      then show ?thesis using Inr by (simp add: wrapClauses.simps)
    next
      case r: (Inr t)
      obtain y' v' st' where t: "t = (y', v', st')" by (cases t)
      have f2: "frameX (targets st1 clauses) st1 st'"
        using l r t by simp
      have "frame st st'"
      proof (rule frameX_trans [OF f1 f2])
        fix fn assume "fn < length (lambdas st)" and "fn \<in> targets st1 clauses"
        then show "fn \<in> {}"
          using registerFors_fresh [OF Inr, of fn] by simp
      qed
      then show ?thesis
        using Inr r t by (simp add: wrapClauses.simps)
    qed
  qed
next
  case (48 E v y st)
  show ?case by (simp add: wrapLoop.simps)
next
  case (49 E v y c cs st)
  let ?T = "targets st (c # cs)"
  have sub: "targets st cs \<subseteq> ?T"
    unfolding targets_def by fastforce
  show ?case
  proof (cases "wrapLoop E v y cs st")
    case (Inl p)
    then show ?thesis by (simp add: wrapLoop.simps)
  next
    case r: (Inr t)
    obtain y1 v1 st1 where t: "t = (y1, v1, st1)" by (cases t)
    have r1: "wrapLoop E v y cs st = Inr (y1, v1, st1)"
      using r t by simp
    have "frameX (targets st cs) st st1"
      using "49.IH"(1) r1 by simp
    then have f1: "frameX ?T st st1"
      using sub frameX_mono by blast
    show ?thesis
    proof (cases "asForClause c")
      case None
      show ?thesis
      proof (cases "asIfClause c")
        case n2: None
        then show ?thesis using None r1 f1 by (simp add: wrapLoop.simps)
      next
        case (Some c')
        have w: "ok {} st1 (walk E v1 c' st1)"
          using "49.IH"(2) [OF r1 refl refl None Some] .
        show ?thesis
        proof (cases "walk E v1 c' st1")
          case (Inl p)
          then show ?thesis using None Some r1 by (simp add: wrapLoop.simps)
        next
          case wr: (Inr u)
          obtain cv v2 st2 where u: "u = (cv, v2, st2)" by (cases u)
          have "frame st1 st2" using w wr u by simp
          then have "frameX ?T st st2"
            using frameX_trans [OF f1, of "{}" st2] by simp
          then show ?thesis
            using None Some r1 wr u by (simp add: wrapLoop.simps)
        qed
      qed
    next
      case (Some fc)
      obtain ci k val src where fc: "fc = (ci, k, val, src)" by (cases fc)
      have sfc: "asForClause c = Some (ci, k, val, src)"
        using Some fc by simp
      obtain m st2 where ms: "mapScope ci st1 = (m, st2)" by (cases "mapScope ci st1")
      have f12: "frame st1 st2"
        using frame_mapScope [OF ms] .
      have f2: "frameX ?T st st2"
        using frameX_trans [OF f1 f12] by simp
      show ?thesis
      proof (cases m)
        case (structLitScope a)
        then show ?thesis using Some fc r1 ms by (simp add: wrapLoop.simps)
      next
        case (lambdaExprScope fn)
        let ?l = "(lambdas st2 ! fn)
                    \<lparr>lambdaValue := y1,
                     params := params (lambdas st2 ! fn) @
                       [(label E (case k of None \<Rightarrow> ''_'' | Some kn \<Rightarrow> snd kn) True,
                         basicType (map_option fst k) (kindOr stringKind intKind)),
                        (label E (snd val) True, topValue None)]\<rparr>"
        let ?st2 = "st2\<lparr>lambdas := (lambdas st2)[fn := ?l]\<rparr>"
        have e1: "astMap st1 ci = Some (lambdaExprScope fn)"
          using ms lambdaExprScope by (auto simp: mapScope_def split: option.splits)
        have tg: "fn \<in> ?T" if "fn < length (lambdas st)"
        proof (cases "astMap st ci")
          case None
          then have "length (lambdas st) \<le> fn"
            using f1 e1 by (simp add: frameX_def)
          then show ?thesis using that by simp
        next
          case s: (Some s)
          then have "astMap st1 ci = Some s" using f1 by (simp add: frameX_def)
          then have "astMap st ci = Some (lambdaExprScope fn)" using e1 s by simp
          then show ?thesis using Some fc unfolding targets_def by force
        qed
        have f22: "frameX {fn} st2 ?st2"
          by (simp add: frameX_def)
        have f3: "frameX ?T st ?st2"
          using frameX_trans [OF f2 f22] tg by blast
        have w: "ok {} ?st2 (walk E v1 src ?st2)"
          using "49.IH"(3) [OF r1 refl refl sfc refl refl refl ms [symmetric] lambdaExprScope] .
        show ?thesis
        proof (cases "walk E v1 src ?st2")
          case (Inl p)
          then show ?thesis
            using Some fc r1 ms lambdaExprScope by (simp add: wrapLoop.simps)
        next
          case wr: (Inr u)
          obtain sv v2 st3 where u: "u = (sv, v2, st3)" by (cases u)
          have "frame ?st2 st3" using w wr u by simp
          then have "frameX ?T st st3"
            using frameX_trans [OF f3, of "{}" st3] by simp
          then show ?thesis
            using Some fc r1 ms lambdaExprScope wr u by (simp add: wrapLoop.simps)
        qed
      qed
    qed
  qed
qed (simp add: walk.simps walkDecls.simps walkSpecs.simps walkFields.simps walkElts.simps
       walkArgs.simps walkParts.simps walkOpt.simps ok_bind split: option.splits)+

lemma walk_errors_prefix:
  assumes "walk E v x st = Inr (r, v', st')"
  shows "prefix (errors st) (errors st')"
  using frame_walk_ok(1) [of st E v x] assms by (simp add: frameX_def)

subsection \<open>Files\<close>

lemma walk_File_result:
  assumes "walk E v (File f decls) st = Inr (r, v', st')"
  shows "r = structLitRef (object v)" and "v' = v"
  using assms by (auto simp: walk.simps split: sum.splits)

lemma insertFile_nil:
  assumes "insertFile E inst f decls ss ls ys = Inr (err, heap)"
  shows "err = None"
  using assms
  by (auto simp: insertFile_def isBottom_def walk.simps split: sum.splits if_splits)

subsection \<open>Comprehension clauses\<close>

lemma set_forTargets: "set (forTargets st cs) = targets st cs"
proof (induction cs)
  case Nil
  then show ?case by (simp add: targets_def)
next
  case (Cons c cs)
  have "targets st (c # cs) =
          {fn. \<exists>ci k val src. asForClause c = Some (ci, k, val, src)
                 \<and> astMap st ci = Some (lambdaExprScope fn)} \<union> targets st cs"
    unfolding targets_def by auto
  then show ?case
    using Cons by (auto split: option.splits scope.splits)
qed

lemma registerFors_registered:
  "registerFors cs st = Inr st' \<Longrightarrow> registered st' cs"
proof (induction cs arbitrary: st)
  case Nil
  then show ?case by simp
next
  case (Cons c cs)
  show ?case
  proof (cases "asForClause c")
    case None
    then show ?thesis using Cons by simp
  next
    case (Some t)
    obtain ci k val src where t: "t = (ci, k, val, src)" by (cases t)
    let ?st0 = "st\<lparr>lambdas := lambdas st @
                        [\<lparr>lambdaSource = newExpr src, params = [], lambdaValue = nil\<rparr>]\<rparr>"
    obtain st1 where s: "setScope ci (lambdaExprScope (length (lambdas st))) ?st0 = Inr st1"
      and r: "registerFors cs st1 = Inr st'"
      using Cons.prems(1) Some t by (auto split: sum.splits)
    have st1: "st1 = ?st0\<lparr>astMap := (astMap ?st0)(ci \<mapsto> lambdaExprScope (length (lambdas st)))\<rparr>"
      using setScope_Inr [OF s] .
    have f: "frame st1 st'"
      using frame_registerFors [OF r] .
    have ci: "astMap st' ci = Some (lambdaExprScope (length (lambdas st)))"
      using f by (simp add: st1 frameX_def)
    have len: "length (lambdas st) < length (lambdas st')"
      using f by (simp add: st1 frameX_def)
    have "lambdas st' ! length (lambdas st) = lambdas st1 ! length (lambdas st)"
      using f by (simp add: st1 frameX_def)
    then have cell: "params (lambdas st' ! length (lambdas st)) = []"
      by (simp add: st1)
    have fresh: "length (lambdas st) \<notin> set (forTargets st' cs)"
      using registerFors_fresh [OF r, of "length (lambdas st)"]
      by (auto simp: set_forTargets st1)
    show ?thesis
      using Some t ci len cell fresh Cons.IH [OF r] by simp
  qed
qed

lemma desugared_transfer:
  assumes "desugared E st cs y y'"
    and "\<And>nd s. astMap st nd = Some s \<Longrightarrow> astMap st' nd = Some s"
    and "length (lambdas st) \<le> length (lambdas st')"
    and "\<And>fn. fn \<in> targets st cs \<Longrightarrow> fn < length (lambdas st)
           \<Longrightarrow> lambdas st' ! fn = lambdas st ! fn"
  shows "desugared E st' cs y y'"
  using assms
proof (induction cs arbitrary: y')
  case Nil
  then show ?case by simp
next
  case (Cons c cs)
  have sub: "targets st cs \<subseteq> targets st (c # cs)"
    unfolding targets_def by fastforce
  have keep: "\<And>fn. fn \<in> targets st cs \<Longrightarrow> fn < length (lambdas st)
           \<Longrightarrow> lambdas st' ! fn = lambdas st ! fn"
    using Cons.prems(4) sub by blast
  show ?case
  proof (cases "asForClause c")
    case None
    show ?thesis
    proof (cases "asIfClause c")
      case n2: None
      then show ?thesis
        using None Cons.prems(1) Cons.IH [OF _ Cons.prems(2,3) keep] by simp
    next
      case (Some c')
      then show ?thesis
        using None Cons.prems(1) Cons.IH [OF _ Cons.prems(2,3) keep]
        by (auto split: option.splits)
    qed
  next
    case (Some t)
    obtain ci k val src where t: "t = (ci, k, val, src)" by (cases t)
    obtain s sv fn where fd: "asFeed y' = Some (s, sv, fn)"
      using Cons.prems(1) Some t by (auto split: option.splits)
    have d: "s = newExpr src" "astMap st ci = Some (lambdaExprScope fn)"
      "fn < length (lambdas st)"
      "params (lambdas st ! fn) =
         [(label E (case k of None \<Rightarrow> ''_'' | Some kn \<Rightarrow> snd kn) True,
           basicType (map_option fst k) (kindOr stringKind intKind)),
          (label E (snd val) True, topValue None)]"
      "desugared E st cs y (lambdaValue (lambdas st ! fn))"
      using Cons.prems(1) Some t fd by simp_all
    have "fn \<in> targets st (c # cs)"
      using Some t d(2) unfolding targets_def by force
    then have same: "lambdas st' ! fn = lambdas st ! fn"
      using Cons.prems(4) d(3) by blast
    have "desugared E st' cs y (lambdaValue (lambdas st ! fn))"
      using Cons.IH [OF d(5) Cons.prems(2,3) keep] .
    then show ?thesis
      using Some t fd d same Cons.prems(2) [OF d(2)] Cons.prems(3) by simp
  qed
qed

lemma registered_targets:
  assumes "registered st cs" and "\<And>nd s. astMap st nd = Some s \<Longrightarrow> astMap st' nd = Some s"
  shows "targets st' cs = targets st cs"
  using assms(1)
proof (induction cs)
  case Nil
  then show ?case by (simp add: targets_def)
next
  case (Cons c cs)
  have split: "\<And>s. targets s (c # cs) =
          {fn. \<exists>ci k val src. asForClause c = Some (ci, k, val, src)
                 \<and> astMap s ci = Some (lambdaExprScope fn)} \<union> targets s cs"
    unfolding targets_def by auto
  have tl: "targets st' cs = targets st cs"
    using Cons by simp
  show ?case
  proof (cases "asForClause c")
    case None
    then show ?thesis using tl by (simp add: split)
  next
    case (Some t)
    obtain ci k val src where t: "t = (ci, k, val, src)" by (cases t)
    obtain fn where m: "astMap st ci = Some (lambdaExprScope fn)"
      using Cons.prems Some t by (auto split: option.splits scope.splits)
    then have "astMap st' ci = Some (lambdaExprScope fn)"
      using assms(2) by blast
    then show ?thesis
      using m Some t tl by (auto simp: split)
  qed
qed

lemma bind_Inr:
  assumes "(case m of Inl p \<Rightarrow> Inl p | Inr (r, v1, st1) \<Rightarrow> f r v1 st1) = Inr z"
  shows "\<exists>r v1 st1. m = Inr (r, v1, st1) \<and> f r v1 st1 = Inr z"
  using assms by (cases m) auto

lemma wrapLoop_desugared:
  assumes "registered st cs" and "wrapLoop E v y cs st = Inr (y', v', st')"
  shows "desugared E st' cs y y'"
  using assms
proof (induction cs arbitrary: y' v' st')
  case Nil
  then show ?case by (simp add: wrapLoop.simps)
next
  case (Cons c cs)
  have reg: "registered st cs"
    using Cons.prems(1) by simp
  have unf: "(case wrapLoop E v y cs st of
                Inl p \<Rightarrow> Inl p
              | Inr (y1, v1, st1) \<Rightarrow> wrapStep E c y1 v1 st1) = Inr (y', v', st')"
    using Cons.prems(2) unfolding wrapStep_def by (simp add: wrapLoop.simps)
  obtain y1 v1 st1 where r1: "wrapLoop E v y cs st = Inr (y1, v1, st1)"
    and step: "wrapStep E c y1 v1 st1 = Inr (y', v', st')"
    using bind_Inr [OF unf] by blast
  have ih: "desugared E st1 cs y y1"
    using Cons.IH [OF reg r1] .
  have f1: "frameX (targets st cs) st st1"
    using frame_walk_ok(11) [of st cs E v y] r1 by simp
  have mono1: "\<And>nd s. astMap st nd = Some s \<Longrightarrow> astMap st1 nd = Some s"
    using f1 by (simp add: frameX_def)
  have t1: "targets st1 cs = targets st cs"
    using registered_targets [OF reg mono1] .
  show ?case
  proof (cases "asForClause c")
    case None
    show ?thesis
    proof (cases "asIfClause c")
      case n2: None
      then show ?thesis
        using None ih step by (simp add: wrapStep_def)
    next
      case (Some c')
      have "(case walk E v1 c' st1 of
               Inl p \<Rightarrow> Inl p
             | Inr (cv, v2, st2) \<Rightarrow> Inr (guard (newExpr c') cv y1, v2, st2))
            = Inr (y', v', st')"
        using None Some step by (simp add: wrapStep_def)
      from bind_Inr [OF this]
      obtain cv where w: "walk E v1 c' st1 = Inr (cv, v', st')"
        and y': "y' = guard (newExpr c') cv y1"
        by auto
      have f2: "frame st1 st'"
        using frame_walk_ok(1) [of st1 E v1 c'] w by simp
      have "desugared E st' cs y y1"
      proof (rule desugared_transfer [OF ih])
        show "\<And>nd s. astMap st1 nd = Some s \<Longrightarrow> astMap st' nd = Some s"
          using f2 by (simp add: frameX_def)
        show "length (lambdas st1) \<le> length (lambdas st')"
          using f2 by (simp add: frameX_def)
        show "lambdas st' ! g = lambdas st1 ! g"
          if "g \<in> targets st1 cs" and "g < length (lambdas st1)" for g
          using f2 that(2) by (simp add: frameX_def)
      qed
      then show ?thesis
        using None Some y' by simp
    qed
  next
    case (Some t)
    obtain ci k val src where t: "t = (ci, k, val, src)" by (cases t)
    obtain fn where m: "astMap st ci = Some (lambdaExprScope fn)"
      and fn: "fn < length (lambdas st)" "params (lambdas st ! fn) = []"
      "fn \<notin> targets st cs"
      using Cons.prems(1) Some t
      by (auto simp: set_forTargets split: option.splits scope.splits)
    have m1: "astMap st1 ci = Some (lambdaExprScope fn)"
      using mono1 [OF m] .
    have ms: "mapScope ci st1 = (lambdaExprScope fn, st1)"
      using m1 by (simp add: mapScope_def)
    have c1: "lambdas st1 ! fn = lambdas st ! fn" and l1: "fn < length (lambdas st1)"
      using f1 fn by (auto simp: frameX_def)
    let ?l = "(lambdas st1 ! fn)
                \<lparr>lambdaValue := y1,
                 params := params (lambdas st1 ! fn) @
                   [(label E (case k of None \<Rightarrow> ''_'' | Some kn \<Rightarrow> snd kn) True,
                     basicType (map_option fst k) (kindOr stringKind intKind)),
                    (label E (snd val) True, topValue None)]\<rparr>"
    let ?st2 = "st1\<lparr>lambdas := (lambdas st1)[fn := ?l]\<rparr>"
    have "(case walk E v1 src ?st2 of
             Inl p \<Rightarrow> Inl p
           | Inr (sv, v2, st3) \<Rightarrow> Inr (feed (newExpr src) sv fn, v2, st3))
          = Inr (y', v', st')"
      using Some t ms step by (simp add: wrapStep_def)
    from bind_Inr [OF this]
    obtain sv where w: "walk E v1 src ?st2 = Inr (sv, v', st')"
      and y': "y' = feed (newExpr src) sv fn"
      by auto
    have f2: "frame ?st2 st'"
      using frame_walk_ok(1) [of ?st2 E v1 src] w by simp
    have cell: "lambdas st' ! fn = ?l" and l2: "fn < length (lambdas st')"
      using f2 l1 by (auto simp: frameX_def)
    have m2: "astMap st' ci = Some (lambdaExprScope fn)"
      using f2 m1 by (simp add: frameX_def)
    have "desugared E st' cs y y1"
    proof (rule desugared_transfer [OF ih])
      show "\<And>nd s. astMap st1 nd = Some s \<Longrightarrow> astMap st' nd = Some s"
        using f2 by (simp add: frameX_def)
      show "length (lambdas st1) \<le> length (lambdas st')"
        using f2 by (simp add: frameX_def)
      show "lambdas st' ! g = lambdas st1 ! g"
        if "g \<in> targets st1 cs" and "g < length (lambdas st1)" for g
      proof -
        have "g \<noteq> fn" using that(1) t1 fn(3) by auto
        moreover have "lambdas st' ! g = lambdas ?st2 ! g"
          using f2 that(2) by (simp add: frameX_def)
        ultimately show ?thesis by simp
      qed
    qed
    then show ?thesis
      using Some t y' m2 l2 cell c1 fn(2) by simp
  qed
qed

lemma wrapClauses_Inr:
  assumes "wrapClauses E v y cs st = Inr (y', v', st')"
  shows "\<exists>st1. registerFors cs st = Inr st1 \<and> registered st1 cs
           \<and> wrapLoop E v y cs st1 = Inr (y', v', st')"
    and "desugared E st' cs y y'"
proof -
  obtain st1 where r: "registerFors cs st = Inr st1"
    and l: "wrapLoop E v y cs st1 = Inr (y', v', st')"
    using assms by (cases "registerFors cs st") (simp_all add: wrapClauses.simps)
  have reg: "registered st1 cs"
    using registerFors_registered [OF r] .
  show "\<exists>st1. registerFors cs st = Inr st1 \<and> registered st1 cs
           \<and> wrapLoop E v y cs st1 = Inr (y', v', st')"
    using r l reg by blast
  show "desugared E st' cs y y'"
    using wrapLoop_desugared [OF reg l] .
qed

subsection \<open>The failures that the builder records\<close>

lemma errf_failed:
  "errf v n format args st = (failed n format args, recorded v n format args st)"
  by (simp add: errf_def mkErr_def failed_def recorded_def)

lemma isBottom_failed [simp]: "isBottom (failed n format args)"
  by (simp add: isBottom_def failed_def)

lemma walk_BadExpr:
  "walk E v (BadExpr i) st =
     Inr (failed i ''invalid expression'' [], v, recorded v i ''invalid expression'' [] st)"
  by (simp add: walk.simps errf_failed)

lemma walk_preference_mark:
  "walk E v (UnaryExpr i MUL x) st =
     Inr (failed i ''preference mark not allowed at this position'' [], v,
          recorded v i ''preference mark not allowed at this position'' [] st)"
  by (simp add: walk.simps errf_failed)

lemma walk_unsupported_unary:
  assumes "tk \<notin> {NOT, ADD, SUB, GEQ, GTR, LSS, LEQ, NEQ, MAT, NMAT, MUL}"
  shows "walk E v (UnaryExpr i tk x) st =
     Inr (failed i ''unsupported unary operator %q'' [TokenArg tk], v,
          recorded v i ''unsupported unary operator %q'' [TokenArg tk] st)"
  using assms by (simp add: walk.simps errf_failed)

lemma walk_reference_not_found:
  assumes "resolve E v i name st = nil" and "name \<notin> set predeclared"
    and "predefinedRanges E name = None"
  shows "walk E v (Ident i name Unresolved sc) st =
     Inr (failed i ''reference %q not found'' [StringArg name], v,
          recorded v i ''reference %q not found'' [StringArg name] st)"
  using assms by (simp add: walk.simps identValue_def predeclared_def errf_failed)

lemma walk_Interpolation_empty:
  "walk E v (Interpolation i []) st =
     Inr (failed i ''invalid interpolation'' [], v,
          recorded v i ''invalid interpolation'' [] st)"
  by (simp add: walk.simps errf_failed)

lemma walk_Interpolation_ends:
  assumes "xs \<noteq> []" and "asBasicLit (hd xs) = None \<or> asBasicLit (last xs) = None"
  shows "walk E v (Interpolation i xs) st =
     Inr (failed i ''invalid interpolation'' [], v,
          recorded v i ''invalid interpolation'' [] st)"
proof (cases xs)
  case Nil
  then show ?thesis using assms by simp
next
  case c1: (Cons x ys)
  show ?thesis
  proof (cases ys)
    case Nil
    then show ?thesis using assms c1 by (simp add: walk.simps errf_failed)
  next
    case (Cons y zs)
    have "last xs = last (y # zs)" and "hd xs = x"
      using c1 Cons by simp_all
    then have "asBasicLit x = None \<or> asBasicLit (last (y # zs)) = None"
      using assms(2) by simp
    then show ?thesis
      using c1 Cons
      by (auto simp: walk.simps errf_failed simp del: last.simps split: option.splits)
  qed
qed

lemma walk_Interpolation_quotes:
  assumes "asBasicLit x = Some (fi, fs)" and "asBasicLit (last (y # zs)) = Some (li, ls)"
    and "ParseQuotes E fs ls = Inl err"
  shows "walk E v (Interpolation i (x # y # zs)) st =
     Inr (failed i ''invalid interpolation: %v'' [ErrorArg err], v,
          recorded v i ''invalid interpolation: %v'' [ErrorArg err] st)"
  using assms by (simp add: walk.simps errf_failed del: last.simps)

lemma walkParts_not_literal:
  assumes "asBasicLit l = None"
  shows "walkParts E v i info pre pl (l # rest) parts st =
     Inr (Inl (failed i ''invalid interpolation'' []), v,
          recorded v i ''invalid interpolation'' [] st)"
  using assms by (simp add: walkParts.simps errf_failed)

lemma walkParts_unmatched:
  assumes "asBasicLit l = Some (li, s)" and "\<not> HasPrefix s pre"
  shows "walkParts E v i info pre pl (l # rest) parts st =
     Inr (Inl (failed li unmatchedParen []), v, recorded v li unmatchedParen [] st)"
  using assms by (simp add: walkParts.simps errf_failed)

lemma walk_Interpolation_part:
  assumes "asBasicLit x = Some (fi, fs)" and "asBasicLit (last (y # zs)) = Some (li, ls)"
    and "ParseQuotes E fs ls = Inr (info, pl)"
    and "walkParts E v i info [] pl (x # y # zs) [] st = Inr (Inl b, vp, stp)"
  shows "walk E v (Interpolation i (x # y # zs)) st = Inr (b, vp, stp)"
  using assms by (simp add: walk.simps del: last.simps)

lemma walkFields_emit:
  assumes "asEmitDecl e = Some x"
  shows "walkFields E v (e # es) st =
     Inr (Some (failed (nodeId e) ''emitting values is only allowed at top level'' []), v,
          recorded v (nodeId e) ''emitting values is only allowed at top level'' [] st)"
  using assms by (simp add: walkFields.simps errf_failed)

lemma walk_StructLit_emit:
  assumes "mapScope i st = (structLitScope obj, sts)"
    and "walkFields E (structVisitor v obj elts lbrace) elts sts = Inr (Some b, vf, stf)"
  shows "walk E v (StructLit i elts lbrace) st = Inr (b, v, stf)"
  using assms by (simp add: walk.simps)

lemma walk_Field_name:
  assumes "isNameLabel lab" and "\<not> (DropOptional E \<and> opt)"
    and "snd (createAttrs E (Some i) attrs) = nil" and "\<not> snd (nodeLabel E lab)"
  shows "walk E v (Field i lab val opt attrs comments) st =
     Inr (failed (nodeId lab) ''invalid field name: %v'' [NodeArg (nodeId lab)],
          v\<lparr>sel := fst (LabelName E lab)\<rparr>,
          recorded (v\<lparr>sel := fst (LabelName E lab)\<rparr>) (nodeId lab)
            ''invalid field name: %v'' [NodeArg (nodeId lab)] st)"
proof -
  have "\<not> isInterpolation lab" and "asTemplateLabel lab = None"
    using assms(1) by (cases lab; simp)+
  then show ?thesis
    using assms by (auto simp: walk.simps errf_failed)
qed

lemma walk_ComprehensionDecl_name:
  assumes "wrapClauses E v (yieldRef (length (yields st))) clauses
             (newYield (newExpr val) st) = Inr (cl, vc, stc)"
    and "isNameLabel lab" and "\<not> snd (LabelName E lab)"
  shows "walk E v (ComprehensionDecl i fi lab val clauses) st =
     Inr (failed (nodeId lab) ''invalid field name: %v'' [NodeArg (nodeId lab)], vc,
          recorded vc (nodeId lab) ''invalid field name: %v'' [NodeArg (nodeId lab)] stc)"
proof -
  have "\<not> isInterpolation lab" and "asTemplateLabel lab = None"
    using assms(2) by (cases lab; simp)+
  then show ?thesis
    using assms by (simp add: walk.simps errf_failed)
qed

lemma loadImport_illformed:
  assumes "Unquote E path = None"
  shows "loadImport E v i path st =
     (failed i ''illformed import spec'' [], recorded v i ''illformed import spec'' [] st)"
  using assms by (simp add: loadImport_def errf_failed)

lemma loadImport_not_found:
  assumes "Unquote E path = Some p" and "getBuiltinPkg E p = None"
    and "LookupImport E p = None"
  shows "loadImport E v i path st =
     (failed i ''package %q not found'' [StringArg p],
      recorded v i ''package %q not found'' [StringArg p] st)"
  using assms by (simp add: loadImport_def errf_failed)

lemma walk_ImportSpec_drops:
  assumes "isBottom (fst (loadImport E v i path st))"
  shows "walk E v (ImportSpec i path) st = Inr (nil, v, snd (loadImport E v i path st))"
  using assms by (cases "loadImport E v i path st") (simp add: walk.simps)

lemma walkParts_Inl:
  assumes "walkParts E v i info pre pl xs parts st = Inr (Inl b, v', st')"
  shows "\<exists>n format sts. b = failed n format [] \<and> st' = recorded v' n format [] sts"
  using assms
proof (induction "length xs" arbitrary: xs v pre pl parts st rule: less_induct)
  case less
  show ?case
  proof (cases xs)
    case Nil
    then show ?thesis using less.prems by (simp add: walkParts.simps)
  next
    case c1: (Cons l rest)
    show ?thesis
    proof (cases "asBasicLit l")
      case None
      then show ?thesis
        using less.prems c1 walkParts_not_literal [of l E v i info pre pl rest parts st]
        by auto
    next
      case (Some t)
      obtain li s where t: "t = (li, s)" by (cases t)
      show ?thesis
      proof (cases "HasPrefix s pre")
        case False
        then show ?thesis
          using less.prems c1 Some t
            walkParts_unmatched [of l li s pre E v i info pl rest parts st]
          by auto
      next
        case True
        show ?thesis
        proof (cases rest)
          case Nil
          then show ?thesis
            using less.prems c1 Some t True
            by (simp add: walkParts.simps split: if_splits)
        next
          case (Cons x rest')
          have len: "length rest' < length xs"
            using c1 Cons by simp
          show ?thesis
          proof (cases "walk E v x st")
            case (Inl p)
            then show ?thesis
              using less.prems c1 Some t True Cons
              by (simp add: walkParts.simps split: if_splits)
          next
            case (Inr u)
            obtain xv v1 st1 where u: "u = (xv, v1, st1)" by (cases u)
            have "walkParts E v1 i info '')'' 1 rest'
                    (parts @ [parseString E li info (drop pl s), xv]) st1
                  = Inr (Inl b, v', st')"
              using less.prems c1 Some t True Cons Inr u
              by (simp add: walkParts.simps split: if_splits)
            then show ?thesis
              using less.hyps [OF len] by blast
          qed
        qed
      qed
    qed
  qed
qed

lemma walkFields_Some:
  assumes "walkFields E v es st = Inr (Some b, v', st')"
  shows "\<exists>e sts. e \<in> set es \<and> asEmitDecl e \<noteq> None
           \<and> b = failed (nodeId e) ''emitting values is only allowed at top level'' []
           \<and> st' = recorded v' (nodeId e) ''emitting values is only allowed at top level'' []
                    sts"
  using assms
proof (induction es arbitrary: v st)
  case Nil
  then show ?case by (simp add: walkFields.simps)
next
  case (Cons e es)
  show ?case
  proof (cases "asEmitDecl e")
    case (Some x)
    then show ?thesis
      using Cons.prems walkFields_emit [of e x E v es st] by auto
  next
    case None
    show ?thesis
    proof (cases "isStructElt e")
      case False
      then have "walkFields E v es st = Inr (Some b, v', st')"
        using Cons.prems None by (simp add: walkFields.simps)
      then show ?thesis
        using Cons.IH by fastforce
    next
      case True
      show ?thesis
      proof (cases "walk E v e st")
        case (Inl p)
        then show ?thesis
          using Cons.prems None True by (simp add: walkFields.simps)
      next
        case (Inr u)
        obtain x v2 st1 where u: "u = (x, v2, st1)" by (cases u)
        have "walkFields E v2 es st1 = Inr (Some b, v', st')"
          using Cons.prems None True Inr u by (simp add: walkFields.simps)
        then show ?thesis
          using Cons.IH by fastforce
      qed
    qed
  qed
qed

subsection \<open>The claims about the builder\<close>

lemmas lowering_simps =
  walk.simps walkDecls.simps walkSpecs.simps walkFields.simps walkElts.simps walkArgs.simps
  walkParts.simps walkOpt.simps addDisjunctionElem.simps wrapClauses.simps wrapLoop.simps
  newState_def fileState_def newStruct_def newVisitor_def structVisitor_def passDoc_def
  errf_def mkErr_def appendPath_def mapScope_def setScope_def resolve_def identValue_def
  loadImport_def newExpr_def isBottom_def newYield_def newLambda_def setKey_def setYield_def
  setOpt_def setLambdaValue_def addComprehension_def addTemplate_def

text \<open>
  C5. The claim: the \<^verbatim>\<open>hasDefaults\<close> flag of a lowered disjunction is true exactly when a
  branch of the flattened chain carries the default marker \<^verbatim>\<open>*\<close>. The code sets the flag
  in the \<^verbatim>\<open>*ast.UnaryExpr\<close> case of \<^verbatim>\<open>addDisjunctionElem\<close> after the test for
  \<^verbatim>\<open>token.MUL\<close>, not inside it. Lowering \<^verbatim>\<open>-1 | 2\<close>, in any environment, with any visitor
  and in any state, returns a disjunction of two branches that are not marked as default and
  whose \<^verbatim>\<open>hasDefaults\<close> flag is set, although no branch carries the marker.
\<close>

theorem hasDefaults_without_marker:
  "walk E v minusOneOrTwo st =
     Inr (disjunction (Some 1)
            [(unaryExpr (Some 2) (tokenMap E SUB) (parse E 3 ''1''), False),
             (parse E 4 ''2'', False)] True,
          v, st)
   \<and> \<not> starBranch minusOneOrTwo"
  by (simp add: minusOneOrTwo_def lowering_simps)

text \<open>
  C6, as the claim states it, fails. Inserting a file that emits \<^verbatim>\<open>*1\<close>: lowering the
  unary expression fails through \<^verbatim>\<open>errf\<close>, \<^verbatim>\<open>walk\<close> returns the root record,
  which is not a bottom, with one diagnostic in the list, and \<^verbatim>\<open>insertFile\<close> returns
  nil: the caller is not given the diagnostic. Inserting a file that imports a package that
  is not found: \<^verbatim>\<open>loadImport\<close> fails through \<^verbatim>\<open>errf\<close>, its bottom is dropped and
  \<^verbatim>\<open>walk\<close> returns nil for the import spec, and \<^verbatim>\<open>insertFile\<close> returns nil.
\<close>

theorem insertFile_drops_diagnostics:
  "walk demoEnv (newVisitor 0) (UnaryExpr 2 MUL (BasicLit 3 ''1'')) demoState =
     Inr (bottom (Some 2) ''preference mark not allowed at this position'' [], newVisitor 0, recorded (newVisitor 0) 2 ''preference mark not allowed at this position'' [] demoState)
   \<and> walk demoEnv (newVisitor 0) (File 0 demoDecls) demoState =
       Inr (structLitRef 0, newVisitor 0, demoLowered)
   \<and> \<not> isBottom (structLitRef 0)
   \<and> errors demoLowered = [\<lparr>errPath = [], errNode = 2, Format = ''preference mark not allowed at this position'', Args = []\<rparr>]
   \<and> insertFile demoEnv demoInstance 0 demoDecls [newStruct None] [] [] =
       Inr (None, structs demoLowered, [], [])
   \<and> loadImport demoEnv (newVisitor 0) 2 ''x/y'' demoState =
       (bottom (Some 2) ''package %q not found'' [StringArg ''x/y''],
        recorded (newVisitor 0) 2 ''package %q not found'' [StringArg ''x/y''] demoState)
   \<and> walk demoEnv (newVisitor 0) (ImportSpec 2 ''x/y'') demoState =
       Inr (nil, newVisitor 0, recorded (newVisitor 0) 2 ''package %q not found'' [StringArg ''x/y''] demoState)
   \<and> \<not> isBottom nil
   \<and> errors (recorded (newVisitor 0) 2 ''package %q not found'' [StringArg ''x/y''] demoState) =
       [\<lparr>errPath = [], errNode = 2, Format = ''package %q not found'', Args = [StringArg ''x/y'']\<rparr>]
   \<and> insertFile demoEnv demoInstance 0 demoImports [newStruct None] [] [] =
       Inr (None, [newStruct None], [], [])"
  by (simp add: demoEnv_def demoInstance_def demoState_def demoDecls_def demoLowered_def
        demoImports_def insertFile_def recorded_def failed_def lowering_simps)

text \<open>
  C6, amended. Every call of \<^verbatim>\<open>errf\<close> appends the failure to the diagnostics of the
  build and returns a bottom for the node it is given. At each of its calls in \<^verbatim>\<open>walk\<close>
  that bottom is what \<^verbatim>\<open>walk\<close> returns for the node it is lowering: a bad expression, a
  preference mark outside a disjunction, an unsupported unary operator, an identifier
  that is not found, an invalid interpolation (no element; a first or last element that is
  not a literal; quotes that do not parse; in the loop over the parts, an element that is
  not a literal or an unmatched parenthesis; a bottom that the loop returns is such a
  failure, and the interpolation returns it), a struct literal with an emit declaration (a
  bottom that the loop over the elements returns is such a failure, and the struct literal
  returns it), and a field or a comprehension declaration whose label is not
  a valid name. The bottom that \<^verbatim>\<open>loadImport\<close> returns for a path that cannot be unquoted
  or a package that is not found is dropped: \<^verbatim>\<open>walk\<close> returns nil for the import spec.
  Lowering a node only adds to the diagnostics. When the top-level result of lowering the
  file is not a bottom, \<^verbatim>\<open>insertFile\<close> returns nil: the diagnostics are not returned to
  its caller.
\<close>

theorem errf_recorded:
  "errf v n format args st = (failed n format args, recorded v n format args st)
   \<and> isBottom (failed n format args)
   \<and> walk E v (BadExpr i) st =
       Inr (failed i ''invalid expression'' [], v, recorded v i ''invalid expression'' [] st)
   \<and> walk E v (UnaryExpr i MUL x) st = Inr (failed i ''preference mark not allowed at this position'' [], v, recorded v i ''preference mark not allowed at this position'' [] st)
   \<and> (tk \<notin> {NOT, ADD, SUB, GEQ, GTR, LSS, LEQ, NEQ, MAT, NMAT, MUL} \<longrightarrow>
        walk E v (UnaryExpr i tk x) st =
          Inr (failed i ''unsupported unary operator %q'' [TokenArg tk], v,
               recorded v i ''unsupported unary operator %q'' [TokenArg tk] st))
   \<and> (resolve E v i name st = nil \<and> name \<notin> set predeclared
        \<and> predefinedRanges E name = None \<longrightarrow>
        walk E v (Ident i name Unresolved sc) st =
          Inr (failed i ''reference %q not found'' [StringArg name], v,
               recorded v i ''reference %q not found'' [StringArg name] st))
   \<and> walk E v (Interpolation i []) st =
       Inr (failed i ''invalid interpolation'' [], v,
            recorded v i ''invalid interpolation'' [] st)
   \<and> (xs \<noteq> [] \<and> (asBasicLit (hd xs) = None \<or> asBasicLit (last xs) = None) \<longrightarrow>
        walk E v (Interpolation i xs) st =
          Inr (failed i ''invalid interpolation'' [], v,
               recorded v i ''invalid interpolation'' [] st))
   \<and> (asBasicLit qx = Some (qi, qa) \<and> asBasicLit (last (qy # qs)) = Some (qj, qb)
        \<and> ParseQuotes E qa qb = Inl err \<longrightarrow>
        walk E v (Interpolation i (qx # qy # qs)) st =
          Inr (failed i ''invalid interpolation: %v'' [ErrorArg err], v,
               recorded v i ''invalid interpolation: %v'' [ErrorArg err] st))
   \<and> (asBasicLit la = None \<longrightarrow>
        walkParts E v i info pre pl (la # rest) parts st =
          Inr (Inl (failed i ''invalid interpolation'' []), v,
               recorded v i ''invalid interpolation'' [] st))
   \<and> (asBasicLit lb = Some (lj, s) \<and> \<not> HasPrefix s preb \<longrightarrow>
        walkParts E v i info preb pl (lb # rest) parts st =
          Inr (Inl (failed lj unmatchedParen []), v, recorded v lj unmatchedParen [] st))
   \<and> (asBasicLit px = Some (pu, pa) \<and> asBasicLit (last (py # ps)) = Some (pw, pb)
        \<and> ParseQuotes E pa pb = Inr (infp, plp)
        \<and> walkParts E v i infp [] plp (px # py # ps) [] st = Inr (Inl b, vp, stp) \<longrightarrow>
        walk E v (Interpolation i (px # py # ps)) st = Inr (b, vp, stp))
   \<and> (walkParts E v i infl prel pll xl partsl st = Inr (Inl bl, vl, stl) \<longrightarrow>
        (\<exists>m fmt sts. bl = failed m fmt [] \<and> stl = recorded vl m fmt [] sts))
   \<and> (asEmitDecl e = Some ex \<longrightarrow>
        walkFields E v (e # es) st =
          Inr (Some (failed (nodeId e) ''emitting values is only allowed at top level'' []), v, recorded v (nodeId e) ''emitting values is only allowed at top level'' [] st))
   \<and> (walkFields E v fs st = Inr (Some bs, vs, sfs) \<longrightarrow>
        (\<exists>d sts. d \<in> set fs \<and> asEmitDecl d \<noteq> None
           \<and> bs = failed (nodeId d) ''emitting values is only allowed at top level'' []
           \<and> sfs = recorded vs (nodeId d) ''emitting values is only allowed at top level'' [] sts))
   \<and> (mapScope i st = (structLitScope obj, sts)
        \<and> walkFields E (structVisitor v obj elts lbrace) elts sts = Inr (Some bf, vf, stf)
        \<longrightarrow> walk E v (StructLit i elts lbrace) st = Inr (bf, v, stf))
   \<and> (isNameLabel lab \<and> \<not> (DropOptional E \<and> opt)
        \<and> snd (createAttrs E (Some i) attrs) = nil \<and> \<not> snd (nodeLabel E lab) \<longrightarrow>
        walk E v (Field i lab val opt attrs comments) st =
          Inr (failed (nodeId lab) ''invalid field name: %v'' [NodeArg (nodeId lab)],
               v\<lparr>sel := fst (LabelName E lab)\<rparr>,
               recorded (v\<lparr>sel := fst (LabelName E lab)\<rparr>) (nodeId lab) ''invalid field name: %v''
                 [NodeArg (nodeId lab)] st))
   \<and> (wrapClauses E v (yieldRef (length (yields st))) clauses
          (newYield (newExpr valc) st) = Inr (cl, vc, stc)
        \<and> isNameLabel labc \<and> \<not> snd (LabelName E labc) \<longrightarrow>
        walk E v (ComprehensionDecl i fic labc valc clauses) st =
          Inr (failed (nodeId labc) ''invalid field name: %v'' [NodeArg (nodeId labc)], vc,
               recorded vc (nodeId labc) ''invalid field name: %v'' [NodeArg (nodeId labc)] stc))
   \<and> (Unquote E path = None \<longrightarrow>
        loadImport E v i path st =
          (failed i ''illformed import spec'' [],
           recorded v i ''illformed import spec'' [] st))
   \<and> (Unquote E pathb = Some pk \<and> getBuiltinPkg E pk = None
        \<and> LookupImport E pk = None \<longrightarrow>
        loadImport E v i pathb st =
          (failed i ''package %q not found'' [StringArg pk], recorded v i ''package %q not found'' [StringArg pk] st))
   \<and> (isBottom (fst (loadImport E v i pathc st)) \<longrightarrow>
        walk E v (ImportSpec i pathc) st = Inr (nil, v, snd (loadImport E v i pathc st)))
   \<and> (walk E v xw st = Inr (r, vx, stx) \<longrightarrow> prefix (errors st) (errors stx))
   \<and> (walk E (newVisitor (rootStruct inst)) (File f decls) (fileState inst f ss ls ys) =
         Inr (res, vr, str) \<and> \<not> isBottom res \<longrightarrow>
        insertFile E inst f decls ss ls ys =
          Inr (None, structs str, lambdas str, yields str))"
proof -
  have "walk E v xw st = Inr (r, vx, stx) \<longrightarrow> prefix (errors st) (errors stx)"
    using walk_errors_prefix [of E v xw st r vx stx] by blast
  moreover have "walk E (newVisitor (rootStruct inst)) (File f decls)
        (fileState inst f ss ls ys) = Inr (res, vr, str) \<and> \<not> isBottom res \<longrightarrow>
      insertFile E inst f decls ss ls ys = Inr (None, structs str, lambdas str, yields str)"
    by (simp add: insertFile_def)
  ultimately show ?thesis
    using errf_failed [of v n format args st] walk_BadExpr [of E v i st]
      walk_preference_mark [of E v i x st] walk_unsupported_unary [of tk E v i x st]
      walk_reference_not_found [of E v i name st sc] walk_Interpolation_empty [of E v i st]
      walk_Interpolation_ends [of xs E v i st]
      walk_Interpolation_quotes [of qx qi qa qy qs qj qb E err v i st]
      walkParts_not_literal [of la E v i info pre pl rest parts st]
      walkParts_unmatched [of lb lj s preb E v i info pl rest parts st]
      walk_Interpolation_part [of px pu pa py ps pw pb E infp plp v i st b vp stp]
      walkParts_Inl [of E v i infl prel pll xl partsl st bl vl stl]
      walkFields_Some [of E v fs st bs vs sfs]
      walkFields_emit [of e ex E v es st]
      walk_StructLit_emit [of i st obj sts E v elts lbrace bf vf stf]
      walk_Field_name [of lab E opt i attrs v val comments st]
      walk_ComprehensionDecl_name [of E v st clauses valc cl vc stc labc i fic]
      loadImport_illformed [of E path v i st]
      loadImport_not_found [of E pathb pk v i st]
      walk_ImportSpec_drops [of E v i pathc st]
    by (intro conjI impI) (simp_all only: isBottom_failed simp_thms)
qed

theorem errf_recorded_witness:
  "walk demoEnv (newVisitor 0) (UnaryExpr 1 OR (BasicLit 3 ''1'')) demoState =
     Inr (failed 1 ''unsupported unary operator %q'' [TokenArg OR], newVisitor 0,
          recorded (newVisitor 0) 1 ''unsupported unary operator %q'' [TokenArg OR] demoState)
   \<and> walk demoEnv (newVisitor 0) (Ident 1 ''foo'' Unresolved None) demoState =
       Inr (failed 1 ''reference %q not found'' [StringArg ''foo''], newVisitor 0,
            recorded (newVisitor 0) 1 ''reference %q not found'' [StringArg ''foo'']
              demoState)
   \<and> walk demoEnv (newVisitor 0) (Interpolation 1 [BadExpr 2]) demoState =
       Inr (failed 1 ''invalid interpolation'' [], newVisitor 0, recorded (newVisitor 0) 1 ''invalid interpolation'' [] demoState)
   \<and> walk demoEnv (newVisitor 0) (Interpolation 1 [BasicLit 2 ''?'', BasicLit 3 ''b''])
         demoState =
       Inr (failed 1 ''invalid interpolation: %v'' [ErrorArg ''bad quotes''], newVisitor 0,
            recorded (newVisitor 0) 1 ''invalid interpolation: %v'' [ErrorArg ''bad quotes'']
              demoState)
   \<and> walkParts demoEnv (newVisitor 0) 1 0 [] 1 [BadExpr 4] [] demoState =
       Inr (Inl (failed 1 ''invalid interpolation'' []), newVisitor 0, recorded (newVisitor 0) 1 ''invalid interpolation'' [] demoState)
   \<and> walkParts demoEnv (newVisitor 0) 1 0 '')'' 1 [BasicLit 5 ''x''] [] demoState =
       Inr (Inl (failed 5 unmatchedParen []), newVisitor 0,
            recorded (newVisitor 0) 5 unmatchedParen [] demoState)
   \<and> walk demoEnv (newVisitor 0)
         (Interpolation 1
            [BasicLit 2 ''a'', BasicLit 3 ''1'', BadExpr 4, BasicLit 5 ''2'', BasicLit 6 ''b''])
         demoState =
       Inr (failed 1 ''invalid interpolation'' [], newVisitor 0, recorded (newVisitor 0) 1 ''invalid interpolation'' [] demoState)
   \<and> walkFields demoEnv (newVisitor 0) [EmitDecl 7 (BasicLit 8 ''1'')] demoState =
       Inr (Some (failed 7 ''emitting values is only allowed at top level'' []), newVisitor 0, recorded (newVisitor 0) 7 ''emitting values is only allowed at top level'' [] demoState)
   \<and> walk demoEnv (newVisitor 0) (StructLit 1 [EmitDecl 7 (BasicLit 8 ''1'')] True)
         demoState =
       Inr (failed 7 ''emitting values is only allowed at top level'' [], newVisitor 0,
            recorded (structVisitor (newVisitor 0) 1 [EmitDecl 7 (BasicLit 8 ''1'')] True) 7
              ''emitting values is only allowed at top level'' [] (snd (mapScope 1 demoState)))
   \<and> walk demoEnv (newVisitor 0)
         (Field 1 (BasicLit 2 ''-'') (BasicLit 3 ''1'') False [] []) demoState =
       Inr (failed 2 ''invalid field name: %v'' [NodeArg 2], (newVisitor 0)\<lparr>sel := ''-''\<rparr>,
            recorded ((newVisitor 0)\<lparr>sel := ''-''\<rparr>) 2 ''invalid field name: %v'' [NodeArg 2] demoState)
   \<and> walk demoEnv (newVisitor 0)
         (ComprehensionDecl 1 3 (BasicLit 2 ''-'') (BasicLit 4 ''1'') []) demoState =
       Inr (failed 2 ''invalid field name: %v'' [NodeArg 2], newVisitor 0,
            recorded (newVisitor 0) 2 ''invalid field name: %v'' [NodeArg 2] (newYield (Some 4) demoState))
   \<and> loadImport demoEnv (newVisitor 0) 1 ''bad'' demoState =
       (failed 1 ''illformed import spec'' [],
        recorded (newVisitor 0) 1 ''illformed import spec'' [] demoState)
   \<and> loadImport demoEnv (newVisitor 0) 1 ''x/y'' demoState =
       (failed 1 ''package %q not found'' [StringArg ''x/y''],
        recorded (newVisitor 0) 1 ''package %q not found'' [StringArg ''x/y''] demoState)
   \<and> walk demoEnv (newVisitor 0) (ImportSpec 1 ''bad'') demoState =
       Inr (nil, newVisitor 0,
            recorded (newVisitor 0) 1 ''illformed import spec'' [] demoState)
   \<and> prefix (errors demoState) (errors (recorded (newVisitor 0) 2 ''preference mark not allowed at this position'' [] demoState))
   \<and> insertFile demoEnv demoInstance 0 demoDecls [newStruct None] [] [] =
       Inr (None, structs demoLowered, lambdas demoLowered, yields demoLowered)"
  using errf_recorded [where E = demoEnv and v = "newVisitor 0" and st = demoState
      and i = 1 and n = 2 and format = "''preference mark not allowed at this position''" and args = "[]"
      and x = "BasicLit 3 ''1''" and tk = OR and name = "''foo''" and sc = None
      and xs = "[BadExpr 2]"
      and qx = "BasicLit 2 ''?''" and qi = 2 and qa = "''?''" and qy = "BasicLit 3 ''b''"
      and qs = "[]" and qj = 3 and qb = "''b''" and err = "''bad quotes''"
      and la = "BadExpr 4" and info = 0 and pre = "[]" and pl = 1 and rest = "[]"
      and parts = "[]"
      and lb = "BasicLit 5 ''x''" and lj = 5 and s = "''x''" and preb = "'')''"
      and px = "BasicLit 2 ''a''" and pu = 2 and pa = "''a''" and py = "BasicLit 3 ''1''"
      and ps = "[BadExpr 4, BasicLit 5 ''2'', BasicLit 6 ''b'']" and pw = 6
      and xl = "[BasicLit 2 ''a'', BasicLit 3 ''1'', BadExpr 4, BasicLit 5 ''2'',
                 BasicLit 6 ''b'']"
      and infl = 0 and prel = "[]" and pll = 1 and partsl = "[]"
      and bl = "failed 1 ''invalid interpolation'' []" and vl = "newVisitor 0"
      and stl = "recorded (newVisitor 0) 1 ''invalid interpolation'' [] demoState"
      and fs = "[EmitDecl 7 (BasicLit 8 ''1'')]"
      and bs = "failed 7 ''emitting values is only allowed at top level'' []" and vs = "newVisitor 0"
      and sfs = "recorded (newVisitor 0) 7 ''emitting values is only allowed at top level'' [] demoState"
      and pb = "''b''" and infp = 0 and plp = 1 and b = "failed 1 ''invalid interpolation'' []"
      and vp = "newVisitor 0" and stp = "recorded (newVisitor 0) 1 ''invalid interpolation'' [] demoState"
      and e = "EmitDecl 7 (BasicLit 8 ''1'')" and ex = "BasicLit 8 ''1''" and es = "[]"
      and obj = 1 and sts = "snd (mapScope 1 demoState)"
      and elts = "[EmitDecl 7 (BasicLit 8 ''1'')]" and lbrace = True
      and bf = "failed 7 ''emitting values is only allowed at top level'' []"
      and vf = "structVisitor (newVisitor 0) 1 [EmitDecl 7 (BasicLit 8 ''1'')] True"
      and stf = "recorded (structVisitor (newVisitor 0) 1 [EmitDecl 7 (BasicLit 8 ''1'')] True)
                   7 ''emitting values is only allowed at top level'' [] (snd (mapScope 1 demoState))"
      and lab = "BasicLit 2 ''-''" and val = "BasicLit 3 ''1''" and opt = False
      and attrs = "[]" and comments = "[]"
      and clauses = "[]" and valc = "BasicLit 4 ''1''" and cl = "yieldRef 0"
      and vc = "newVisitor 0" and stc = "newYield (Some 4) demoState"
      and labc = "BasicLit 2 ''-''" and fic = 3
      and path = "''bad''" and pathb = "''x/y''" and pk = "''x/y''" and pathc = "''bad''"
      and xw = "UnaryExpr 2 MUL (BasicLit 3 ''1'')" and r = "failed 2 ''preference mark not allowed at this position'' []"
      and vx = "newVisitor 0" and stx = "recorded (newVisitor 0) 2 ''preference mark not allowed at this position'' [] demoState"
      and inst = demoInstance and f = 0 and decls = demoDecls
      and ss = "[newStruct None]" and ls = "[]" and ys = "[]"
      and res = "structLitRef 0" and vr = "newVisitor 0" and str = demoLowered]
  by (simp add: demoEnv_def demoInstance_def demoState_def demoDecls_def demoLowered_def
        recorded_def failed_def HasPrefix_def unmatchedParen_def predeclared_def
        lowering_simps)

text \<open>
  C7. Lowering a disjunction \<open>x | y\<close> lowers the branches of \<open>x\<close> and then those of \<open>y\<close>
  from left to right, where the branches of an operand that is itself a disjunction are
  the branches of its two operands, a branch \<^verbatim>\<open>*e\<close> is lowered as \<open>e\<close> and flagged, and any
  other branch is not flagged. Lowering \<^verbatim>\<open>1 | *2 | 3\<close> returns the branch list
  \<open>[(1, False), (2, True), (3, False)]\<close>, the literals being what the literal parser
  makes of them, and leaves the visitor and the state as they were.
\<close>

theorem walk_flattens_disjunction:
  "walk E v (BinaryExpr i OR x y) st =
     (case walkBranches E v (branches False x @ branches False y) st of
        Inl p \<Rightarrow> Inl p
      | Inr (vs, v1, st1) \<Rightarrow>
          Inr (disjunction (Some i) vs (unaryBranch x \<or> unaryBranch y), v1, st1))
   \<and> walk E v oneStarTwoThree st =
       Inr (disjunction (Some 1)
              [(parse E 3 ''1'', False), (parse E 5 ''2'', True), (parse E 6 ''3'', False)]
              True,
            v, st)"
proof -
  have "walk E v oneStarTwoThree st =
       Inr (disjunction (Some 1)
              [(parse E 3 ''1'', False), (parse E 5 ''2'', True), (parse E 6 ''3'', False)]
              True,
            v, st)"
    by (simp add: oneStarTwoThree_def lowering_simps)
  then show ?thesis
    using walk_disjunction [of E v i x y st] by simp
qed

text \<open>
  C9. When \<^verbatim>\<open>wrapClauses\<close> returns, the lambdas of all \<^verbatim>\<open>for\<close> clauses were entered in
  the scope map by the first loop, which lowers nothing, and the second loop started from
  that state; the value returned has one layer per clause, the first clause outermost: a
  feed for a \<^verbatim>\<open>for\<close> clause, whose lambda binds the key (\<^verbatim>\<open>_\<close> when the clause has none)
  and the value and has the inner layers as its body, and a guard for an \<^verbatim>\<open>if\<close> clause
  around the inner layers. The second loop handles the clauses after a clause before the
  clause itself. The clauses of \<^verbatim>\<open>for x in [1,2] if x > 1 { y: x }\<close> become a feed whose
  lambda has as its body a guard around the yield, and lowering the whole comprehension
  enters that feed in the record, with the yield of key \<^verbatim>\<open>y\<close> and value \<^verbatim>\<open>x\<close>.
\<close>

theorem wrapClauses_desugars:
  "(wrapClauses E v y cs st = Inr (yr, vr, str) \<longrightarrow>
      (\<exists>st1. registerFors cs st = Inr st1 \<and> registered st1 cs
         \<and> wrapLoop E v y cs st1 = Inr (yr, vr, str))
      \<and> desugared E str cs y yr)
   \<and> wrapLoop E v y (c # cs) st =
       (case wrapLoop E v y cs st of
          Inl p \<Rightarrow> Inl p
        | Inr (y1, v1, st1) \<Rightarrow> wrapStep E c y1 v1 st1)
   \<and> wrapClauses demoEnv (newVisitor 0) (yieldRef 0) demoClauses demoYielder =
       Inr (demoFeed, newVisitor 0, demoWrapped)
   \<and> lambdaValue (lambdas demoWrapped ! 0) =
       guard (Some 7)
         (binaryExpr (Some 7) (OtherOp ''>'') (nodeRef (Some 8) (lambdaExprScope 0))
            (external ''1''))
         (yieldRef 0)
   \<and> walk demoEnv (newVisitor 0) demoComprehension (newState None [newStruct None] [] []) =
       Inr (nil, (newVisitor 0)\<lparr>sel := ''y''\<rparr>, demoBuilt)"
proof -
  have a: "wrapClauses E v y cs st = Inr (yr, vr, str) \<longrightarrow>
      (\<exists>st1. registerFors cs st = Inr st1 \<and> registered st1 cs
         \<and> wrapLoop E v y cs st1 = Inr (yr, vr, str))
      \<and> desugared E str cs y yr"
    using wrapClauses_Inr [of E v y cs st yr vr str] by blast
  have b: "wrapLoop E v y (c # cs) st =
       (case wrapLoop E v y cs st of
          Inl p \<Rightarrow> Inl p
        | Inr (y1, v1, st1) \<Rightarrow> wrapStep E c y1 v1 st1)"
    unfolding wrapStep_def by (simp add: wrapLoop.simps)
  have c: "wrapClauses demoEnv (newVisitor 0) (yieldRef 0) demoClauses demoYielder =
       Inr (demoFeed, newVisitor 0, demoWrapped)"
    by (simp add: demoEnv_def demoClauses_def demoYielder_def demoFeed_def demoWrapped_def
          lowering_simps)
  have d: "lambdaValue (lambdas demoWrapped ! 0) =
       guard (Some 7)
         (binaryExpr (Some 7) (OtherOp ''>'') (nodeRef (Some 8) (lambdaExprScope 0))
            (external ''1''))
         (yieldRef 0)"
    by (simp add: demoWrapped_def)
  have e: "walk demoEnv (newVisitor 0) demoComprehension (newState None [newStruct None] [] [])
       = Inr (nil, (newVisitor 0)\<lparr>sel := ''y''\<rparr>, demoBuilt)"
    by (simp add: demoEnv_def demoClauses_def demoYielder_def demoFeed_def demoWrapped_def
          demoComprehension_def demoBuilt_def lowering_simps)
  from a b c d e show ?thesis by simp
qed

theorem wrapClauses_desugars_witness:
  "wrapClauses demoEnv (newVisitor 0) (yieldRef 0) demoClauses demoYielder =
     Inr (demoFeed, newVisitor 0, demoWrapped)
   \<and> registerFors demoClauses demoYielder = Inr demoRegistered
   \<and> registered demoRegistered demoClauses
   \<and> wrapLoop demoEnv (newVisitor 0) (yieldRef 0) demoClauses demoRegistered =
       Inr (demoFeed, newVisitor 0, demoWrapped)
   \<and> desugared demoEnv demoWrapped demoClauses (yieldRef 0) demoFeed"
  using wrapClauses_desugars [where E = demoEnv and v = "newVisitor 0" and y = "yieldRef 0"
      and cs = demoClauses and st = demoYielder and yr = demoFeed and vr = "newVisitor 0"
      and str = demoWrapped]
  by (auto simp: demoEnv_def demoClauses_def demoYielder_def demoFeed_def demoWrapped_def
        demoRegistered_def lowering_simps)

end
